theory Spec2Isabelle
  imports Main "HOL-Library.Log_Nat" "HOL-Library.Sublist" "HOL-Library.AList"
begin

section \<open>Python values and built-ins used by the sources\<close>

text \<open>
  The normaliser of \<^verbatim>\<open>feedback_analyzer.py\<close> receives whatever \<^verbatim>\<open>json.loads\<close> produced, so
  its argument is an arbitrary Python value.  A \<open>dict\<close> is kept as its item list (insertion
  order, as Python keeps it); a lookup takes the first binding of a key.  A finite float is
  the dyadic number \<open>m * 2 ^ e\<close>; \<open>FInf neg\<close> is the infinity of the given sign.
  A \<open>char\<close> stands for a code point below 256.
\<close>

datatype py_error = ValueError | TypeError | OverflowError

datatype pyfloat = FNan | FInf bool | FFin int int

datatype pyval =
    PNone
  | PBool bool
  | PInt int
  | PFloat pyfloat
  | PStr string
  | PList "pyval list"
  | PDict "(string \<times> pyval) list"

text \<open>
  Some built-ins are library code whose tables are not part of the repository; they are
  parameters of the model:
  \<^item> the parser behind \<open>float(s)\<close> for a string \<open>s\<close> (\<open>None\<close> is its \<open>ValueError\<close>);
  \<^item> \<open>str(v)\<close> for a float, a list or a dict, which returns the text or raises (the text
    of a list holds the text of its elements);
  \<^item> the interpreter's limit on the decimal digits of an int that \<open>str\<close> converts:
    4300 by default from CPython 3.11 on, \<open>0\<close> where there is no limit.
\<close>

record pylib =
  float_of_str :: "string \<Rightarrow> pyfloat option"
  str_other :: "pyval \<Rightarrow> py_error + string"
  int_max_str_digits :: nat

subsection \<open>Strings\<close>

definition isspace :: "char \<Rightarrow> bool" where
  "isspace c = (of_char c \<in> {9, 10, 11, 12, 13, 28, 29, 30, 31, 32, 133, 160 :: nat})"

definition py_strip :: "string \<Rightarrow> string" where
  "py_strip s = rev (dropWhile isspace (rev (dropWhile isspace s)))"

text \<open>\<open>s.split()\<close>: the maximal runs of non-whitespace, \<open>cur\<close> being the run in progress.\<close>

fun split_acc :: "string \<Rightarrow> string \<Rightarrow> string list" where
  "split_acc cur [] = (if cur = [] then [] else [cur])"
| "split_acc cur (c # cs) =
     (if isspace c then (if cur = [] then split_acc [] cs else cur # split_acc [] cs)
      else split_acc (cur @ [c]) cs)"

definition py_split :: "string \<Rightarrow> string list" where
  "py_split s = split_acc [] s"

text \<open>\<open>s.split(d)\<close> for a one-character separator: never the empty list.\<close>

fun split_on :: "char \<Rightarrow> string \<Rightarrow> string list" where
  "split_on d [] = [[]]"
| "split_on d (c # cs) =
     (if c = d then [] # split_on d cs
      else (case split_on d cs of [] \<Rightarrow> [[c]] | r # rs \<Rightarrow> (c # r) # rs))"

fun py_join :: "string \<Rightarrow> string list \<Rightarrow> string" where
  "py_join sep [] = []"
| "py_join sep [x] = x"
| "py_join sep (x # y # ys) = x @ sep @ py_join sep (y # ys)"

definition lower_char :: "char \<Rightarrow> char" where
  "lower_char c =
     (let n = of_char c :: nat
      in if (65 \<le> n \<and> n \<le> 90) \<or> (192 \<le> n \<and> n \<le> 222 \<and> n \<noteq> 215) then char_of (n + 32) else c)"

definition py_lower :: "string \<Rightarrow> string" where
  "py_lower s = map lower_char s"

definition startswith :: "string \<Rightarrow> string \<Rightarrow> bool" where
  "startswith s p = (take (length p) s = p)"

definition endswith :: "string \<Rightarrow> string \<Rightarrow> bool" where
  "endswith s p = (length p \<le> length s \<and> drop (length s - length p) s = p)"

text \<open>\<open>w in s\<close> for strings: \<open>w\<close> occurs in \<open>s\<close> as a contiguous piece.\<close>

fun contains :: "string \<Rightarrow> string \<Rightarrow> bool" where
  "contains [] w = (w = [])"
| "contains (c # cs) w = (startswith (c # cs) w \<or> contains cs w)"

fun str_nat :: "nat \<Rightarrow> string" where
  "str_nat n = (if n < 10 then [char_of (48 + n)] else str_nat (n div 10) @ [char_of (48 + n mod 10)])"

declare str_nat.simps [simp del]

definition str_int :: "int \<Rightarrow> string" where
  "str_int i = (if i < 0 then CHR ''-'' # str_nat (nat (- i)) else str_nat (nat i))"

text \<open>
  \<open>str(v)\<close>.  Of an int with more digits than the limit allows it raises \<open>ValueError\<close>.
\<close>

definition py_str :: "pylib \<Rightarrow> pyval \<Rightarrow> py_error + string" where
  "py_str L v =
     (case v of
        PNone \<Rightarrow> Inr ''None''
      | PBool b \<Rightarrow> Inr (if b then ''True'' else ''False'')
      | PInt i \<Rightarrow>
          (if int_max_str_digits L \<noteq> 0 \<and> int_max_str_digits L < length (str_nat (nat \<bar>i\<bar>))
           then Inl ValueError else Inr (str_int i))
      | PStr s \<Rightarrow> Inr s
      | _ \<Rightarrow> str_other L v)"

subsection \<open>Numbers: \<open>float(x)\<close> and \<open>int(f)\<close>\<close>

text \<open>
  \<open>float(n)\<close> of an int rounds to a 53-bit significand, ties to even, and raises
  \<open>OverflowError\<close> when the rounded value does not fit a double (\<open>2 ^ 1024\<close> and beyond).
\<close>

definition round_half_even :: "int \<Rightarrow> nat \<Rightarrow> int" where
  "round_half_even a k =
     (let q = a div 2 ^ k; r = a mod 2 ^ k
      in if 2 ^ k < 2 * r \<or> (2 * r = 2 ^ k \<and> odd q) then q + 1 else q)"

definition float_of_int :: "int \<Rightarrow> py_error + pyfloat" where
  "float_of_int n =
     (let a = \<bar>n\<bar>; k = nat (bitlen a - 53); m = round_half_even a k
      in if 2 ^ 1024 \<le> m * 2 ^ k then Inl OverflowError else Inr (FFin (sgn n * m) (int k)))"

definition py_float :: "pylib \<Rightarrow> pyval \<Rightarrow> py_error + pyfloat" where
  "py_float L v =
     (case v of
        PFloat f \<Rightarrow> Inr f
      | PInt n \<Rightarrow> float_of_int n
      | PBool b \<Rightarrow> Inr (FFin (if b then 1 else 0) 0)
      | PStr s \<Rightarrow> (case float_of_str L s of None \<Rightarrow> Inl ValueError | Some f \<Rightarrow> Inr f)
      | _ \<Rightarrow> Inl TypeError)"

text \<open>\<open>int(f)\<close> truncates towards zero; it has no value for a NaN or an infinity.\<close>

definition py_int :: "pyfloat \<Rightarrow> py_error + int" where
  "py_int f =
     (case f of
        FNan \<Rightarrow> Inl ValueError
      | FInf neg \<Rightarrow> Inl OverflowError
      | FFin m e \<Rightarrow> Inr (if 0 \<le> e then m * 2 ^ nat e else sgn m * (\<bar>m\<bar> div 2 ^ nat (- e))))"

subsection \<open>Dictionaries\<close>

definition dict_get :: "(string \<times> 'v) list \<Rightarrow> string \<Rightarrow> 'v \<Rightarrow> 'v" where
  "dict_get d k dflt = (case map_of d k of None \<Rightarrow> dflt | Some v \<Rightarrow> v)"

section \<open>The output normaliser (\<^verbatim>\<open>feedback_analyzer.py\<close>)\<close>

text \<open>
  \<open>validate_score\<close>: the \<open>try\<close> block is \<open>int(float(score))\<close> and the clamp; the handler
  catches \<open>ValueError\<close> and \<open>TypeError\<close> only, any other exception leaves the function.
\<close>

definition score_handler :: "py_error \<Rightarrow> int \<Rightarrow> int \<Rightarrow> py_error + int" where
  "score_handler err min_val max_val =
     (if err = ValueError \<or> err = TypeError then Inr ((min_val + max_val) div 2) else Inl err)"

definition validate_score :: "pylib \<Rightarrow> pyval \<Rightarrow> int \<Rightarrow> int \<Rightarrow> py_error + int" where
  "validate_score L score min_val max_val =
     (case py_float L score of
        Inl err \<Rightarrow> score_handler err min_val max_val
      | Inr f \<Rightarrow>
          (case py_int f of
             Inl err \<Rightarrow> score_handler err min_val max_val
           | Inr score_int \<Rightarrow> Inr (max min_val (min max_val score_int))))"

text \<open>
  \<open>clean_text\<close>: \<open>str(text)\<close> may raise, and nothing here catches it; on the text it
  returns, the function trims and collapses the whitespace (\<open>clean_str\<close>).
\<close>

definition clean_str :: "string \<Rightarrow> string" where
  "clean_str s = (let cleaned = py_strip s in py_join '' '' (py_split cleaned))"

definition clean_text :: "pylib \<Rightarrow> pyval \<Rightarrow> py_error + string" where
  "clean_text L text =
     (if text = PNone then Inr ''''
      else case py_str L text of Inl err \<Rightarrow> Inl err | Inr s \<Rightarrow> Inr (clean_str s))"

definition validate_confidence :: "pylib \<Rightarrow> pyval \<Rightarrow> py_error + string" where
  "validate_confidence L v =
     (if v = PNone then Inr ''partial''
      else case py_str L v of
             Inl err \<Rightarrow> Inl err
           | Inr s \<Rightarrow>
               (let val_str = py_strip (py_lower s)
                in if val_str \<in> set [''yes'', ''y'', ''true'', ''1''] then Inr ''yes''
                   else if val_str \<in> set [''no'', ''n'', ''false'', ''0''] then Inr ''no''
                   else Inr ''partial''))"

definition default_metrics :: "(string \<times> int) list" where
  "default_metrics =
     [(''felt_heard'', 3), (''concerns_addressed'', 3), (''clear_communication'', 3),
      (''respect_shown'', 3), (''time_given'', 3)]"

text \<open>The \<open>for key in default_metrics.keys()\<close> loop, \<open>validated\<close> being the dict under construction.\<close>

fun radar_loop ::
  "pylib \<Rightarrow> (string \<times> pyval) list \<Rightarrow> string list \<Rightarrow> (string \<times> int) list \<Rightarrow> py_error + (string \<times> int) list"
where
  "radar_loop L metrics [] validated = Inr validated"
| "radar_loop L metrics (key # keys) validated =
     (case validate_score L (dict_get metrics key (PInt 3)) 1 5 of
        Inl err \<Rightarrow> Inl err
      | Inr v \<Rightarrow> radar_loop L metrics keys (AList.update key v validated))"

definition validate_radar_metrics :: "pylib \<Rightarrow> pyval \<Rightarrow> py_error + (string \<times> int) list" where
  "validate_radar_metrics L metrics =
     (case metrics of
        PDict items \<Rightarrow> radar_loop L items (map fst default_metrics) []
      | _ \<Rightarrow> Inr default_metrics)"

definition placeholder :: string where
  "placeholder = ''No specific feedback provided.''"

text \<open>
  The \<open>for bullet in bullets[:5]\<close> loop, \<open>cleaned\<close> being the list under construction; an
  exception of \<open>clean_text\<close> ends it.
\<close>

fun bullets_loop :: "pylib \<Rightarrow> pyval list \<Rightarrow> string list \<Rightarrow> py_error + string list" where
  "bullets_loop L [] cleaned = Inr cleaned"
| "bullets_loop L (bullet # rest) cleaned =
     (case clean_text L bullet of
        Inl err \<Rightarrow> Inl err
      | Inr text \<Rightarrow>
          (if text \<noteq> [] then bullets_loop L rest (cleaned @ [text]) else bullets_loop L rest cleaned))"

definition validate_bullets :: "pylib \<Rightarrow> pyval \<Rightarrow> py_error + string list" where
  "validate_bullets L bullets =
     (if bullets = PNone then Inr [placeholder]
      else
        let bullets1 =
              (case bullets of
                 PStr s \<Rightarrow> PList (map (\<lambda>b. PStr (py_strip b)) (filter (\<lambda>b. py_strip b \<noteq> []) (split_on CHR '','' s)))
               | _ \<Rightarrow> bullets)
        in (case bullets1 of
              PList xs \<Rightarrow>
                (case bullets_loop L (take 5 xs) [] of
                   Inl err \<Rightarrow> Inl err
                 | Inr cleaned \<Rightarrow> Inr (if cleaned \<noteq> [] then cleaned else [placeholder]))
            | _ \<Rightarrow> Inr [placeholder]))"

record feedback =
  satisfaction_score :: int
  radar_metrics :: "(string \<times> int) list"
  confidence_in_treatment :: string
  duration_satisfaction :: int
  staff_behavior :: int
  summary_bullets :: "string list"

definition process_llm_output :: "pylib \<Rightarrow> pyval \<Rightarrow> py_error + feedback" where
  "process_llm_output L llm_response =
     (let d = (case llm_response of PDict items \<Rightarrow> items | _ \<Rightarrow> [])
      in case validate_score L (dict_get d ''satisfaction_score'' (PInt 3)) 1 5 of
           Inl err \<Rightarrow> Inl err
         | Inr satisfaction \<Rightarrow>
       (case validate_radar_metrics L (dict_get d ''radar_metrics'' (PDict [])) of
           Inl err \<Rightarrow> Inl err
         | Inr radar \<Rightarrow>
       (case validate_confidence L (dict_get d ''confidence_in_treatment'' (PStr ''partial'')) of
           Inl err \<Rightarrow> Inl err
         | Inr confidence \<Rightarrow>
       (case validate_score L (dict_get d ''duration_satisfaction'' (PInt 3)) 1 5 of
           Inl err \<Rightarrow> Inl err
         | Inr duration \<Rightarrow>
       (case validate_score L (dict_get d ''staff_behavior'' (PInt 3)) 1 5 of
           Inl err \<Rightarrow> Inl err
         | Inr staff \<Rightarrow>
       (case validate_bullets L (dict_get d ''summary_bullets'' (PList [])) of
           Inl err \<Rightarrow> Inl err
         | Inr bullets \<Rightarrow>
             Inr \<lparr>satisfaction_score = satisfaction, radar_metrics = radar,
                  confidence_in_treatment = confidence, duration_satisfaction = duration,
                  staff_behavior = staff, summary_bullets = bullets\<rparr>))))))"

text \<open>The returned dict, read back as a Python value.\<close>

definition feedback_dict :: "feedback \<Rightarrow> pyval" where
  "feedback_dict r =
     PDict [(''satisfaction_score'', PInt (satisfaction_score r)),
            (''radar_metrics'', PDict (map (\<lambda>(k, v). (k, PInt v)) (radar_metrics r))),
            (''confidence_in_treatment'', PStr (confidence_in_treatment r)),
            (''duration_satisfaction'', PInt (duration_satisfaction r)),
            (''staff_behavior'', PInt (staff_behavior r)),
            (''summary_bullets'', PList (map PStr (summary_bullets r)))]"

text \<open>The invariants of a rating record.\<close>

definition score_ok :: "int \<Rightarrow> bool" where
  "score_ok n = (1 \<le> n \<and> n \<le> 5)"

definition valid_record :: "feedback \<Rightarrow> bool" where
  "valid_record r =
     (score_ok (satisfaction_score r) \<and> score_ok (duration_satisfaction r) \<and> score_ok (staff_behavior r)
      \<and> map fst (radar_metrics r) = map fst default_metrics
      \<and> list_all score_ok (map snd (radar_metrics r))
      \<and> confidence_in_treatment r \<in> set [''yes'', ''no'', ''partial'']
      \<and> 1 \<le> length (summary_bullets r) \<and> length (summary_bullets r) \<le> 5
      \<and> list_all (\<lambda>b. b \<noteq> []) (summary_bullets r))"

section \<open>The conversation buffer (\<^verbatim>\<open>conversation.py\<close>)\<close>

text \<open>
  A message is the dict \<open>{"role", "content", "timestamp"}\<close>; the timestamp is the reading
  of the clock, passed in by the caller (every \<open>datetime.now()\<close> is one reading).
\<close>

datatype role = User | Assistant | System

record message =
  role :: role
  content :: string
  timestamp :: nat

record conversation_manager =
  messages :: "message list"
  session_id :: "string option"
  created_at :: nat
  last_activity :: nat
  is_active :: bool

definition MAX_HISTORY_LENGTH :: nat where
  "MAX_HISTORY_LENGTH = 50"

definition init_manager :: "string option \<Rightarrow> nat \<Rightarrow> nat \<Rightarrow> conversation_manager" where
  "init_manager sid t_created t_act =
     \<lparr>messages = [], session_id = sid, created_at = t_created, last_activity = t_act, is_active = True\<rparr>"

definition enforce_max_length :: "conversation_manager \<Rightarrow> conversation_manager" where
  "enforce_max_length s =
     (if MAX_HISTORY_LENGTH < length (messages s)
      then let excess = length (messages s) - MAX_HISTORY_LENGTH
           in s\<lparr>messages := drop excess (messages s)\<rparr>
      else s)"

definition add_user_message :: "string \<Rightarrow> nat \<Rightarrow> nat \<Rightarrow> conversation_manager \<Rightarrow> conversation_manager" where
  "add_user_message txt t_msg t_act s =
     (if txt = [] \<or> py_strip txt = [] then s
      else enforce_max_length
             (s\<lparr>messages := messages s @ [\<lparr>role = User, content = py_strip txt, timestamp = t_msg\<rparr>],
                last_activity := t_act\<rparr>))"

definition add_assistant_message :: "string \<Rightarrow> nat \<Rightarrow> nat \<Rightarrow> conversation_manager \<Rightarrow> conversation_manager" where
  "add_assistant_message txt t_msg t_act s =
     (if txt = [] \<or> py_strip txt = [] then s
      else enforce_max_length
             (s\<lparr>messages := messages s @ [\<lparr>role = Assistant, content = py_strip txt, timestamp = t_msg\<rparr>],
                last_activity := t_act\<rparr>))"

definition add_system_message :: "string \<Rightarrow> nat \<Rightarrow> conversation_manager \<Rightarrow> conversation_manager" where
  "add_system_message txt t_msg s =
     s\<lparr>messages := messages s @ [\<lparr>role = System, content = py_strip txt, timestamp = t_msg\<rparr>]\<rparr>"

type_synonym hist_entry = "role \<times> string"

definition get_history :: "conversation_manager \<Rightarrow> hist_entry list" where
  "get_history s =
     map (\<lambda>msg. (role msg, content msg))
       (filter (\<lambda>msg. role msg \<in> set [User, Assistant]) (messages s))"

text \<open>The loop of \<open>get_conversation_transcript\<close>, a system message being skipped.\<close>

fun transcript_lines :: "message list \<Rightarrow> string list" where
  "transcript_lines [] = []"
| "transcript_lines (msg # rest) =
     (if role msg = System then transcript_lines rest
      else ((if role msg = User then ''Patient'' else ''Assistant'') @ '': '' @ content msg)
             # transcript_lines rest)"

definition get_conversation_transcript :: "conversation_manager \<Rightarrow> string" where
  "get_conversation_transcript s =
     (if messages s = [] then '''' else py_join [CHR 0x0A] (transcript_lines (messages s)))"

text \<open>
  A sequence of append calls on one manager, and the messages those calls hand to
  \<open>self.messages.append\<close>, in order.
\<close>

datatype append_call =
    AddUser string nat nat
  | AddAssistant string nat nat
  | AddSystem string nat

fun apply_call :: "append_call \<Rightarrow> conversation_manager \<Rightarrow> conversation_manager" where
  "apply_call (AddUser txt t_msg t_act) s = add_user_message txt t_msg t_act s"
| "apply_call (AddAssistant txt t_msg t_act) s = add_assistant_message txt t_msg t_act s"
| "apply_call (AddSystem txt t_msg) s = add_system_message txt t_msg s"

fun run_calls :: "append_call list \<Rightarrow> conversation_manager \<Rightarrow> conversation_manager" where
  "run_calls [] s = s"
| "run_calls (c # cs) s = run_calls cs (apply_call c s)"

fun appended :: "append_call \<Rightarrow> message list" where
  "appended (AddUser txt t_msg t_act) =
     (if txt = [] \<or> py_strip txt = [] then [] else [\<lparr>role = User, content = py_strip txt, timestamp = t_msg\<rparr>])"
| "appended (AddAssistant txt t_msg t_act) =
     (if txt = [] \<or> py_strip txt = [] then [] else [\<lparr>role = Assistant, content = py_strip txt, timestamp = t_msg\<rparr>])"
| "appended (AddSystem txt t_msg) = [\<lparr>role = System, content = py_strip txt, timestamp = t_msg\<rparr>]"

definition history_of :: "message list \<Rightarrow> hist_entry list" where
  "history_of ms = map (\<lambda>msg. (role msg, content msg)) (filter (\<lambda>msg. role msg \<noteq> System) ms)"

section \<open>The model gateway (\<^verbatim>\<open>llm_client.py\<close>)\<close>

subsection \<open>The mock chat backend\<close>

text \<open>
  \<open>random.choice(xs)\<close> on a non-empty list, \<open>r\<close> being the draw of the generator;
  \<open>any(w in s for w in ws)\<close> is \<open>any_in ws s\<close>.
\<close>

definition choice :: "nat \<Rightarrow> 'a list \<Rightarrow> 'a" where
  "choice r xs = xs ! (r mod length xs)"

definition any_in :: "string list \<Rightarrow> string \<Rightarrow> bool" where
  "any_in ws s = list_ex (\<lambda>w. contains s w) ws"

definition greetings :: "string list" where
  "greetings =
     [''Hello! I'm here to hear about your healthcare visit today. How was your overall experience?'',
      ''Hi there! Thank you for taking the time to share your feedback. What brings you here today?'',
      ''Welcome! I'd love to hear about your recent healthcare experience. What stood out to you?'']"

definition negatives :: "string list" where
  "negatives =
     [''I'm truly sorry to hear that. That sounds very difficult. Can you tell me more about what happened?'',
      ''That's really concerning to hear. Your experience matters. What specifically went wrong?'',
      ''I appreciate you sharing that, even though it was negative. What would have made it better?'']"

definition wait_responses :: "string list" where
  "wait_responses =
     [''Wait times can be so frustrating. How long did you have to wait approximately?'',
      ''I understand waiting is difficult. Did anyone communicate about the delay?'',
      ''That's a common concern we hear. Was there anything available to make the wait more comfortable?'']"

definition rude_responses :: "string list" where
  "rude_responses =
     [''I'm sorry you felt that way. No one should feel dismissed. Who was involved in that interaction?'',
      ''That's not the experience we want anyone to have. Can you describe what happened?'',
      ''Your feelings are valid. Would you like to share more details about that interaction?'']"

definition positives :: "string list" where
  "positives =
     [''That's wonderful to hear! What made it such a positive experience?'',
      ''I'm so glad! Was there a particular person or aspect that stood out?'',
      ''That's great feedback! Would you recommend us to others? Why?'']"

definition friendly_responses :: "string list" where
  "friendly_responses =
     [''It's great that the staff made a positive impression! Anyone specific you'd like to mention?'',
      ''We love hearing this! Friendly interactions make such a difference, don't they?'',
      ''That's exactly what we aim for. Was the rest of your visit equally positive?'']"

definition doctor_responses :: "string list" where
  "doctor_responses =
     [''How was your interaction with the doctor? Did they address all your concerns?'',
      ''The doctor-patient relationship is so important. Did you feel heard?'',
      ''Was the doctor able to explain things in a way you understood?'']"

definition nurse_responses :: "string list" where
  "nurse_responses =
     [''Nurses play such a vital role. How was your experience with them?'',
      ''Our nursing staff works hard. Did they make you feel comfortable?'',
      ''Were the nurses attentive to your needs?'']"

definition appointment_responses :: "string list" where
  "appointment_responses =
     [''How was the appointment scheduling process?'',
      ''Was it easy to get an appointment at a time that worked for you?'',
      ''Did the appointment start on time?'']"

definition facility_responses :: "string list" where
  "facility_responses =
     [''The environment matters. Was the facility up to your expectations?'',
      ''Cleanliness is important to us. How did you find the facilities?'',
      ''What did you think about the overall atmosphere of our facility?'']"

definition off_topic_redirect :: string where
  "off_topic_redirect =
     ''I appreciate the conversation! Though I'd love to hear more about your healthcare experience specifically. Anything else you'd like to share about your visit?''"

definition defaults :: "nat \<Rightarrow> string list" where
  "defaults num_exchanges =
     (if num_exchanges = 2 then
        [''Thank you for sharing that. Is there anything specific about the staff you'd like to mention?'',
         ''I appreciate that feedback. What about the facilities - how did you find them?'',
         ''Got it. How was the communication throughout your visit?'']
      else if num_exchanges = 3 then
        [''That's helpful to know. Were there any surprises during your visit, good or bad?'',
         ''I see. If you could change one thing about your experience, what would it be?'',
         ''Thank you. Is there anything else that stands out in your memory?'']
      else if num_exchanges = 4 then
        [''You've shared some valuable insights. Any final thoughts before we wrap up?'',
         ''This is really helpful feedback. Anything else you'd like to add?'',
         ''I appreciate all you've shared. Is there anything we haven't covered?'']
      else
        [''Thank you for continuing to share. What else would you like to mention?'',
         ''I'm still listening. Feel free to share any other thoughts.'',
         ''Is there anything else about your experience you'd like to discuss?'',
         ''Your feedback is valuable. Please continue if there's more.'',
         ''I appreciate your openness. What else comes to mind?''])"

definition chat_completion :: "nat \<Rightarrow> hist_entry list \<Rightarrow> string \<Rightarrow> string" where
  "chat_completion r msgs system_prompt =
     (let last_message = (if msgs \<noteq> [] then py_lower (snd (last msgs)) else '''');
          num_exchanges = length (filter (\<lambda>m. fst m = User) msgs)
      in if num_exchanges \<le> 1 then choice r greetings
         else if any_in [''bad'', ''terrible'', ''awful'', ''horrible'', ''worst''] last_message
           then choice r negatives
         else if any_in [''long'', ''slow'', ''wait'', ''waiting'', ''delayed''] last_message
           then choice r wait_responses
         else if any_in [''rude'', ''mean'', ''dismissive'', ''ignored''] last_message
           then choice r rude_responses
         else if any_in [''good'', ''great'', ''excellent'', ''amazing'', ''wonderful''] last_message
           then choice r positives
         else if any_in [''nice'', ''friendly'', ''helpful'', ''kind'', ''caring''] last_message
           then choice r friendly_responses
         else if any_in [''doctor'', ''physician'', ''dr''] last_message
           then choice r doctor_responses
         else if any_in [''nurse'', ''nurses'', ''nursing''] last_message
           then choice r nurse_responses
         else if any_in [''appointment'', ''schedule'', ''booking''] last_message
           then choice r appointment_responses
         else if any_in [''clean'', ''dirty'', ''facility'', ''room'', ''building''] last_message
           then choice r facility_responses
         else if any_in [''marketing'', ''sales'', ''weather'', ''sports'', ''politics''] last_message
           then off_topic_redirect
         else choice r (defaults num_exchanges))"

subsection \<open>Structured analysis\<close>

text \<open>
  A provider call either raises (\<open>Inl\<close>, with the exception's message) or returns; the
  analysis text of a hosted provider may be \<open>None\<close>.  \<open>json.loads\<close> is library code and a
  parameter: it gives a value, raises \<open>JSONDecodeError\<close>, or raises something else.
\<close>

datatype json_outcome = Parsed pyval | JSONDecodeError | JSONOtherError

type_synonym analyze_fn = "string \<Rightarrow> string \<Rightarrow> string + string option"

type_synonym chat_fn = "hist_entry list \<Rightarrow> string \<Rightarrow> string + string"

definition strip_fences :: "string \<Rightarrow> string" where
  "strip_fences raw_response =
     (let clean0 = py_strip raw_response;
          clean1 = (if startswith clean0 ''```json'' then drop 7 clean0 else clean0);
          clean2 = (if endswith clean1 ''```'' then take (length clean1 - 3) clean1 else clean1)
      in clean2)"

definition parse_fallback :: pyval where
  "parse_fallback =
     PDict [(''satisfaction_score'', PInt 3),
            (''summary'', PStr ''Analysis failed to parse.''),
            (''key_issues'', PList [PStr ''Analysis Error''])]"

definition analyze_feedback :: "analyze_fn \<Rightarrow> (string \<Rightarrow> json_outcome) \<Rightarrow> string \<Rightarrow> string \<Rightarrow> pyval" where
  "analyze_feedback analyze_conversation json_loads conversation system_prompt =
     (case analyze_conversation conversation system_prompt of
        Inl exc \<Rightarrow> PDict []
      | Inr None \<Rightarrow> PDict []
      | Inr (Some raw_response) \<Rightarrow>
          (case json_loads (strip_fences raw_response) of
             Parsed v \<Rightarrow> v
           | JSONDecodeError \<Rightarrow> parse_fallback
           | JSONOtherError \<Rightarrow> PDict []))"

definition mock_chat :: "nat \<Rightarrow> chat_fn" where
  "mock_chat r msgs system_prompt = Inr (chat_completion r msgs system_prompt)"

section \<open>The session orchestrator (\<^verbatim>\<open>app.py\<close>)\<close>

text \<open>
  \<open>active_sessions\<close> maps a session id to its manager.  A handler takes the request and
  the sessions and returns the JSON response with the sessions as it leaves them; the
  chat handler also returns the provider calls it made, in order.  \<open>clk i\<close> is the
  \<open>i\<close>-th reading of the clock during the request.

  The responses, field by field: \<open>ErrorResponse status error\<close> is \<open>success: False\<close> with
  the HTTP status; the other two are \<open>success: True\<close>, namely
  \<open>MessageResponse message is_active session_id\<close> and
  \<open>EndResponse message transcript is_active should_analyze session_id\<close>.
\<close>

type_synonym sessions = "string \<rightharpoonup> conversation_manager"

record request =
  req_message :: string
  req_session_id :: "string option"

datatype response =
    ErrorResponse nat string
  | MessageResponse string bool string
  | EndResponse string string bool bool string

datatype provider_call = PrimaryChat | MockChat

definition greeting :: string where
  "greeting = ''Hello! I'm here to listen about your healthcare experience today. What would you like to share?''"

definition closing_msg :: string where
  "closing_msg = ''Thank you for your feedback. We are now analyzing your response.''"

definition fallback_note :: string where
  "fallback_note = '' [Note: System fallback engaged due to connection error]''"

definition start_conversational_session :: "string \<Rightarrow> (nat \<Rightarrow> nat) \<Rightarrow> sessions \<Rightarrow> response \<times> sessions" where
  "start_conversational_session new_id clk sessions =
     (let conversation = add_assistant_message greeting (clk 2) (clk 3) (init_manager None (clk 0) (clk 1))
      in (MessageResponse greeting True new_id, sessions(new_id \<mapsto> conversation)))"

definition end_conversational_session_internal ::
  "(nat \<Rightarrow> nat) \<Rightarrow> string option \<Rightarrow> sessions \<Rightarrow> response \<times> sessions"
where
  "end_conversational_session_internal clk sess_id sessions =
     (case sess_id of
        None \<Rightarrow> (ErrorResponse 400 ''Invalid session'', sessions)
      | Some sid \<Rightarrow>
          (if sid = [] then (ErrorResponse 400 ''Invalid session'', sessions)
           else case sessions sid of
                  None \<Rightarrow> (ErrorResponse 400 ''Invalid session'', sessions)
                | Some conversation \<Rightarrow>
                    (let conversation1 = add_assistant_message closing_msg (clk 0) (clk 1) conversation;
                         transcript = get_conversation_transcript conversation1
                     in (EndResponse closing_msg transcript False True sid, sessions(sid \<mapsto> conversation1)))))"

definition end_conversational_session :: "(nat \<Rightarrow> nat) \<Rightarrow> request \<Rightarrow> sessions \<Rightarrow> response \<times> sessions" where
  "end_conversational_session clk data sessions =
     end_conversational_session_internal clk (req_session_id data) sessions"

text \<open>The \<open>try\<close> around the primary chat call, with its nested fallback.\<close>

definition chat_with_fallback ::
  "chat_fn \<Rightarrow> chat_fn \<Rightarrow> hist_entry list \<Rightarrow> string \<Rightarrow> string \<times> provider_call list"
where
  "chat_with_fallback primary fallback history prompt =
     (case primary history prompt of
        Inr assistant_response \<Rightarrow> (assistant_response, [PrimaryChat])
      | Inl llm_error \<Rightarrow>
          (case fallback history prompt of
             Inr assistant_response \<Rightarrow> (assistant_response @ fallback_note, [PrimaryChat, MockChat])
           | Inl e \<Rightarrow>
               (''System Error: '' @ llm_error @ ''. Please check server logs.'', [PrimaryChat, MockChat])))"

definition send_message ::
  "chat_fn \<Rightarrow> chat_fn \<Rightarrow> string \<Rightarrow> (nat \<Rightarrow> nat) \<Rightarrow> request \<Rightarrow> sessions
     \<Rightarrow> response \<times> sessions \<times> provider_call list"
where
  "send_message primary fallback prompt clk data sessions =
     (let user_message = py_strip (req_message data); sess_id = req_session_id data
      in if user_message = [] then (ErrorResponse 400 ''Message cannot be empty'', sessions, [])
         else case sess_id of
                None \<Rightarrow> (ErrorResponse 400 ''Invalid or expired session'', sessions, [])
              | Some sid \<Rightarrow>
                  (if sid = [] then (ErrorResponse 400 ''Invalid or expired session'', sessions, [])
                   else case sessions sid of
                          None \<Rightarrow> (ErrorResponse 400 ''Invalid or expired session'', sessions, [])
                        | Some conversation \<Rightarrow>
                            (if py_lower user_message \<in> set [''end'', ''stop'', ''finish'', ''done'']
                             then (let (resp, sessions1) = end_conversational_session_internal clk sess_id sessions
                                   in (resp, sessions1, []))
                             else
                               (let conversation1 = add_user_message user_message (clk 0) (clk 1) conversation;
                                    (assistant_response, calls) =
                                       chat_with_fallback primary fallback (get_history conversation1) prompt;
                                    conversation2 = add_assistant_message assistant_response (clk 2) (clk 3) conversation1
                                in (MessageResponse assistant_response True sid, sessions(sid \<mapsto> conversation2), calls)))))"

text \<open>
  The analysis endpoint after its transcript checks: \<open>analyze_feedback\<close>, then the
  normaliser on whatever it returned.
\<close>

definition analyze_pipeline ::
  "pylib \<Rightarrow> analyze_fn \<Rightarrow> (string \<Rightarrow> json_outcome) \<Rightarrow> string \<Rightarrow> string \<Rightarrow> py_error + feedback"
where
  "analyze_pipeline L analyze_conversation json_loads user_message system_prompt =
     process_llm_output L (analyze_feedback analyze_conversation json_loads user_message system_prompt)"

section \<open>Auxiliary notions\<close>

text \<open>The latest user message of a history (the empty text when there is none).\<close>

definition latest_user_message :: "hist_entry list \<Rightarrow> string" where
  "latest_user_message msgs =
     (case filter (\<lambda>m. fst m = User) msgs of [] \<Rightarrow> '''' | u # us \<Rightarrow> snd (last (u # us)))"

text \<open>
  What the buffer keeps of the messages appended so far.  Trimming happens when a user or
  assistant message is appended, not when a system note is; so with the appended messages
  split at the last user or assistant message, the buffer holds the last
  \<open>MAX_HISTORY_LENGTH\<close> messages up to that one, and every system note after it.
\<close>

definition is_note :: "message \<Rightarrow> bool" where
  "is_note msg = (role msg = System)"

definition trailing_notes :: "message list \<Rightarrow> message list" where
  "trailing_notes ms = rev (takeWhile is_note (rev ms))"

definition upto_last_turn :: "message list \<Rightarrow> message list" where
  "upto_last_turn ms = rev (dropWhile is_note (rev ms))"

definition last_turns :: "message list \<Rightarrow> message list" where
  "last_turns ms = drop (length (upto_last_turn ms) - MAX_HISTORY_LENGTH) (upto_last_turn ms)"

definition retained :: "message list \<Rightarrow> message list" where
  "retained ms = last_turns ms @ trailing_notes ms"

definition or_placeholder :: "string list \<Rightarrow> string list" where
  "or_placeholder xs = (if xs = [] then [placeholder] else xs)"

text \<open>\<open>clean_text\<close> on every element of a list, in order, up to the first exception.\<close>

fun clean_all :: "pylib \<Rightarrow> pyval list \<Rightarrow> py_error + string list" where
  "clean_all L [] = Inr []"
| "clean_all L (x # xs) =
     (case clean_text L x of
        Inl err \<Rightarrow> Inl err
      | Inr t \<Rightarrow> (case clean_all L xs of Inl err \<Rightarrow> Inl err | Inr ts \<Rightarrow> Inr (t # ts)))"

text \<open>
  The summary-bullets rule in the order the specification words it: a string is split on
  commas into a list; each element of a list is cleaned, the empty ones are dropped, and
  the result is cut to five; an empty result becomes the placeholder.  \<open>None\<close> where the
  sentence says nothing (a number, a boolean, a dict, an element that has no text).
\<close>

definition spec_bullet_list :: "string list \<Rightarrow> string list" where
  "spec_bullet_list ts = or_placeholder (take 5 (filter (\<lambda>t. t \<noteq> []) ts))"

definition validate_bullets_spec :: "pylib \<Rightarrow> pyval \<Rightarrow> string list option" where
  "validate_bullets_spec L bullets =
     (case bullets of
        PNone \<Rightarrow> Some [placeholder]
      | PStr s \<Rightarrow> Some (spec_bullet_list (map clean_str (split_on CHR '','' s)))
      | PList xs \<Rightarrow> (case clean_all L xs of Inl err \<Rightarrow> None | Inr ts \<Rightarrow> Some (spec_bullet_list ts))
      | _ \<Rightarrow> None)"

text \<open>The record the normaliser gives for an empty dict.\<close>

definition default_record :: feedback where
  "default_record =
     \<lparr>satisfaction_score = 3, radar_metrics = default_metrics, confidence_in_treatment = ''partial'',
      duration_satisfaction = 3, staff_behavior = 3, summary_bullets = [placeholder]\<rparr>"

text \<open>
  An instance of the library parameters, for running the model on concrete values: no
  string is a number, the texts of floats, lists and dicts are left out, and the digit
  limit is CPython's default.
\<close>

definition no_lib :: pylib where
  "no_lib = \<lparr>float_of_str = (\<lambda>s. None), str_other = (\<lambda>v. Inr ''?''), int_max_str_digits = 4300\<rparr>"

text \<open>A clock whose \<open>i\<close>-th reading is \<open>i\<close>.\<close>

definition tick :: "nat \<Rightarrow> nat" where
  "tick i = i"

text \<open>A word of \<open>s.split()\<close>: non-empty and free of whitespace.\<close>

definition word_ok :: "string \<Rightarrow> bool" where
  "word_ok w = (w \<noteq> [] \<and> list_all (\<lambda>c. \<not> isspace c) w)"

section \<open>Properties of the output normaliser\<close>

subsection \<open>Scores\<close>

lemma score_handler_range:
  assumes "score_handler err lo hi = Inr n" and "lo \<le> hi"
  shows "lo \<le> n \<and> n \<le> hi"
  using assms by (auto simp: score_handler_def split: if_splits)

lemma score_handler_error:
  "score_handler err lo hi = Inl e \<Longrightarrow> e = OverflowError"
  by (cases err) (auto simp: score_handler_def)

lemma validate_score_range:
  assumes "validate_score L v lo hi = Inr n" and "lo \<le> hi"
  shows "lo \<le> n \<and> n \<le> hi"
  using assms
  by (auto simp: validate_score_def split: sum.splits dest: score_handler_range)

lemma validate_score_error:
  "validate_score L v lo hi = Inl e \<Longrightarrow> e = OverflowError"
  by (auto simp: validate_score_def split: sum.splits dest: score_handler_error)

lemma bitlen_small:
  assumes "0 \<le> a" and "a < 2 ^ 53"
  shows "bitlen a \<le> 53"
proof (cases "a = 0")
  case True
  then show ?thesis by simp
next
  case False
  with assms have pos: "0 < a" by simp
  from bitlen_bounds[OF pos] have "2 ^ nat (bitlen a - 1) \<le> a" by simp
  with assms have "(2::int) ^ nat (bitlen a - 1) < 2 ^ 53" by linarith
  then have "nat (bitlen a - 1) < 53" by (rule power_less_imp_less_exp[rotated]) simp
  then show ?thesis by linarith
qed

lemma float_of_int_exact:
  assumes "\<bar>n\<bar> < 2 ^ 53"
  shows "float_of_int n = Inr (FFin n 0)"
proof -
  have "bitlen \<bar>n\<bar> \<le> 53" using assms by (intro bitlen_small) auto
  then have k: "nat (bitlen \<bar>n\<bar> - 53) = 0" by simp
  have "\<bar>n\<bar> < 2 ^ 1024" using assms by (rule less_trans) simp
  moreover have "sgn n * \<bar>n\<bar> = n" by (simp add: mult_sgn_abs)
  ultimately show ?thesis
    by (simp add: float_of_int_def k round_half_even_def Let_def)
qed

lemma validate_score_fixed:
  assumes "score_ok n"
  shows "validate_score L (PInt n) 1 5 = Inr n"
proof -
  have "\<bar>n\<bar> < 2 ^ 53" using assms by (auto simp: score_ok_def)
  then have "float_of_int n = Inr (FFin n 0)" by (rule float_of_int_exact)
  then show ?thesis using assms
    by (simp add: validate_score_def py_float_def py_int_def score_ok_def)
qed


lemma float_of_int_huge: "float_of_int (10 ^ 400) = Inl OverflowError"
  by code_simp

lemma py_int_inf: "py_int (FInf neg) = Inl OverflowError"
  by (simp add: py_int_def)

lemma validate_score_inf: "validate_score L (PFloat (FInf neg)) lo hi = Inl OverflowError"
  by (simp add: validate_score_def py_float_def py_int_def score_handler_def)

lemma validate_score_int_overflow:
  assumes "float_of_int n = Inl OverflowError"
  shows "validate_score L (PInt n) lo hi = Inl OverflowError"
  using assms by (simp add: validate_score_def py_float_def score_handler_def)

lemma radar_loop_overflow:
  assumes "validate_score L (dict_get metrics key (PInt 3)) 1 5 = Inl err"
  shows "radar_loop L metrics (key # keys) validated = Inl err"
  using assms by simp

text \<open>
  C1 (the normaliser never raises and always yields a valid record): on the object
  \<open>{"satisfaction_score": Infinity}\<close>, which \<open>json.loads\<close> produces from the text
  \<open>{"satisfaction_score": 1e999}\<close>, \<open>process_llm_output\<close> leaves with an
  \<open>OverflowError\<close> instead of returning a record: \<open>validate_score\<close> catches
  \<open>ValueError\<close> and \<open>TypeError\<close> only.
\<close>

theorem process_llm_output_overflow:
  "process_llm_output L (PDict [(''satisfaction_score'', PFloat (FInf False))]) = Inl OverflowError"
  by (simp add: process_llm_output_def dict_get_def validate_score_inf)

text \<open>
  C10 (for every input \<open>validate_radar_metrics\<close> returns a mapping over the five axes):
  on the dict \<open>{"felt_heard": 10 ** 400}\<close> the function returns no mapping, it leaves
  with the \<open>OverflowError\<close> of \<open>float(10 ** 400)\<close>.
\<close>

theorem validate_radar_metrics_overflow:
  "validate_radar_metrics L (PDict [(''felt_heard'', PInt (10 ^ 400))]) = Inl OverflowError"
proof -
  have "validate_score L (PInt (10 ^ 400)) 1 5 = Inl OverflowError"
    by (rule validate_score_int_overflow) (rule float_of_int_huge)
  then have "validate_score L (dict_get [(''felt_heard'', PInt (10 ^ 400))] ''felt_heard'' (PInt 3)) 1 5
             = Inl OverflowError"
    by (simp only: dict_get_def map_of.simps fst_conv snd_conv fun_upd_same option.case)
  then show ?thesis
    unfolding validate_radar_metrics_def default_metrics_def pyval.case list.map fst_conv
    by (rule radar_loop_overflow)
qed

lemma radar_loop_result:
  assumes "radar_loop L metrics keys validated = Inr r"
    and "distinct keys" and "set keys \<inter> fst ` set validated = {}"
    and "list_all score_ok (map snd validated)"
  shows "map fst r = map fst validated @ keys \<and> list_all score_ok (map snd r)
         \<and> (\<forall>k \<in> set keys. map_of metrics k = None \<longrightarrow> map_of r k = Some 3)
         \<and> (\<forall>k. k \<notin> set keys \<longrightarrow> map_of r k = map_of validated k)"
  using assms
proof (induction keys arbitrary: validated)
  case Nil
  then show ?case by simp
next
  case (Cons key keys)
  from Cons.prems(1) obtain v where
    v: "validate_score L (dict_get metrics key (PInt 3)) 1 5 = Inr v"
    and rec: "radar_loop L metrics keys (AList.update key v validated) = Inr r"
    by (auto split: sum.splits)
  have vok: "score_ok v" using validate_score_range[OF v] by (simp add: score_ok_def)
  have fresh: "key \<notin> fst ` set validated" using Cons.prems(3) by auto
  then have upd: "AList.update key v validated = validated @ [(key, v)]"
    by (induction validated) auto
  have "map fst r = map fst (validated @ [(key, v)]) @ keys
        \<and> list_all score_ok (map snd r)
        \<and> (\<forall>k \<in> set keys. map_of metrics k = None \<longrightarrow> map_of r k = Some 3)
        \<and> (\<forall>k. k \<notin> set keys \<longrightarrow> map_of r k = map_of (validated @ [(key, v)]) k)"
    using Cons.prems(2,3,4) vok
    by (intro Cons.IH) (auto simp: rec[unfolded upd])
  moreover have "map_of metrics key = None \<Longrightarrow> v = 3"
    using v validate_score_fixed[of 3 L] by (simp add: dict_get_def score_ok_def)
  moreover have "map_of validated key = None"
    using fresh by (simp add: map_of_eq_None_iff)
  then have "map_of (validated @ [(key, v)]) key = Some v"
    by (simp add: map_add_def)
  moreover have "k \<noteq> key \<Longrightarrow> map_of (validated @ [(key, v)]) k = map_of validated k" for k
    by (simp add: map_add_def split: option.splits)
  ultimately show ?case using Cons.prems(2) by (auto simp: map_add_def)
qed

subsection \<open>Text cleaning\<close>


lemma split_acc_words:
  assumes "list_all (\<lambda>c. \<not> isspace c) cur"
  shows "list_all word_ok (split_acc cur s)"
  using assms
  by (induction s arbitrary: cur) (auto simp: word_ok_def)

lemma py_split_words: "list_all word_ok (py_split s)"
  unfolding py_split_def by (rule split_acc_words) simp

lemma split_acc_run:
  assumes "list_all (\<lambda>c. \<not> isspace c) w"
  shows "split_acc cur (w @ rest) = split_acc (cur @ w) rest"
  using assms
  by (induction w arbitrary: cur) auto

lemma isspace_blank: "isspace CHR '' ''"
  by (simp add: isspace_def)

lemma split_join:
  assumes "list_all word_ok ws"
  shows "split_acc [] (py_join '' '' ws) = ws"
  using assms
proof (induction ws rule: induct_list012)
  case 1
  then show ?case by simp
next
  case (2 x)
  then have "split_acc [] (x @ []) = split_acc ([] @ x) []"
    by (intro split_acc_run) (simp add: word_ok_def)
  with 2 show ?case by (simp add: word_ok_def)
next
  case (3 x y zs)
  from 3 have x: "x \<noteq> []" "list_all (\<lambda>c. \<not> isspace c) x"
    by (simp_all add: word_ok_def)
  have "split_acc [] (x @ CHR '' '' # py_join '' '' (y # zs))
        = split_acc ([] @ x) (CHR '' '' # py_join '' '' (y # zs))"
    using x(2) by (rule split_acc_run)
  also have "\<dots> = x # split_acc [] (py_join '' '' (y # zs))"
    using x(1) by (simp add: isspace_blank)
  also have "\<dots> = x # y # zs"
    using 3 by simp
  finally show ?case by simp
qed

lemma join_ends:
  assumes "list_all word_ok ws" and "ws \<noteq> []"
  shows "py_join '' '' ws \<noteq> [] \<and> hd (py_join '' '' ws) = hd (hd ws)
         \<and> last (py_join '' '' ws) = last (last ws)"
  using assms
proof (induction ws rule: induct_list012)
  case 1
  then show ?case by simp
next
  case (2 x)
  then show ?case by (simp add: word_ok_def)
next
  case (3 x y zs)
  then show ?case by (auto simp: word_ok_def)
qed

lemma dropWhile_unchanged:
  assumes "xs \<noteq> []" and "\<not> P (hd xs)"
  shows "dropWhile P xs = xs"
  using assms by (cases xs) auto

lemma strip_unchanged:
  assumes "s = [] \<or> (\<not> isspace (hd s) \<and> \<not> isspace (last s))"
  shows "py_strip s = s"
proof (cases s)
  case Nil
  then show ?thesis by (simp add: py_strip_def)
next
  case (Cons c cs)
  with assms have h: "\<not> isspace c" and l: "\<not> isspace (last s)" by auto
  from h Cons have "dropWhile isspace s = s" by simp
  moreover have "rev s \<noteq> []" using Cons by simp
  moreover have "\<not> isspace (hd (rev s))" using l by (simp add: hd_rev)
  ultimately have "dropWhile isspace s = s" and "dropWhile isspace (rev s) = rev s"
    by (simp_all add: dropWhile_unchanged)
  then show ?thesis by (simp add: py_strip_def)
qed

lemma strip_join:
  assumes "list_all word_ok ws"
  shows "py_strip (py_join '' '' ws) = py_join '' '' ws"
proof (cases "ws = []")
  case True
  then show ?thesis by (simp add: py_strip_def)
next
  case False
  from join_ends[OF assms False]
  have e: "hd (py_join '' '' ws) = hd (hd ws)" "last (py_join '' '' ws) = last (last ws)"
    by simp_all
  have "word_ok (hd ws)" "word_ok (last ws)"
    using assms False by (auto simp: list_all_iff)
  then have "\<not> isspace (hd (hd ws))" "\<not> isspace (last (last ws))"
    by (auto simp: word_ok_def list_all_iff)
  with e show ?thesis by (intro strip_unchanged) simp
qed

lemma clean_text_str: "clean_text L (PStr s) = Inr (clean_str s)"
  by (simp add: clean_text_def py_str_def)

lemma clean_str_joined:
  "\<exists>ws. list_all word_ok ws \<and> clean_str s = py_join '' '' ws"
proof -
  have "clean_str s = py_join '' '' (py_split (py_strip s))"
    by (simp add: clean_str_def)
  with py_split_words show ?thesis by blast
qed

lemma clean_str_idem: "clean_str (clean_str s) = clean_str s"
proof -
  obtain ws where ws: "list_all word_ok ws" and eq: "clean_str s = py_join '' '' ws"
    using clean_str_joined by blast
  have "py_split (py_strip (py_join '' '' ws)) = ws"
    using ws by (simp add: strip_join py_split_def split_join)
  then have "clean_str (py_join '' '' ws) = py_join '' '' ws"
    by (simp add: clean_str_def)
  then show ?thesis by (simp add: eq)
qed

lemma clean_str_empty: "clean_str [] = []"
  by (simp add: clean_str_def py_strip_def py_split_def)

text \<open>Whatever \<open>clean_text\<close> returns is already clean.\<close>

lemma clean_text_result:
  assumes "clean_text L v = Inr t"
  shows "clean_str t = t"
proof (cases "v = PNone")
  case True
  with assms have "t = []" by (simp add: clean_text_def)
  then show ?thesis by (simp add: clean_str_empty)
next
  case False
  with assms obtain s where "t = clean_str s"
    by (auto simp: clean_text_def split: sum.splits)
  then show ?thesis by (simp add: clean_str_idem)
qed

lemma clean_placeholder: "clean_str placeholder = placeholder"
  by code_simp

lemma str_nat_digits:
  assumes "10 ^ k \<le> n"
  shows "k < length (str_nat n)"
  using assms
proof (induction k arbitrary: n)
  case 0
  then show ?case by (subst str_nat.simps) simp
next
  case (Suc k)
  then have big: "\<not> n < 10"
    by (metis le_trans linorder_not_less one_le_numeral one_le_power power_Suc2
        mult_le_mono1 nat_mult_1)
  from Suc.prems have "10 ^ k \<le> n div 10" by simp
  then have "k < length (str_nat (n div 10))" by (rule Suc.IH)
  with big show ?case by (subst str_nat.simps) simp
qed

text \<open>An int beyond the digit limit has no text: \<open>str\<close> raises \<open>ValueError\<close>.\<close>

lemma py_str_digit_limit:
  assumes "int_max_str_digits L = d" and "0 < d" and "10 ^ d \<le> (n :: int)"
  shows "py_str L (PInt n) = Inl ValueError"
proof -
  have "(0 :: int) \<le> 10 ^ d" by simp
  with assms(3) have pos: "0 \<le> n" by linarith
  from assms(3) have "int (10 ^ d) \<le> n" by simp
  with pos have "10 ^ d \<le> nat \<bar>n\<bar>" by linarith
  then have "d < length (str_nat (nat \<bar>n\<bar>))" by (rule str_nat_digits)
  with assms(1,2) show ?thesis by (simp add: py_str_def)
qed

section \<open>Properties of the conversation buffer\<close>

lemma enforce_messages:
  "messages (enforce_max_length s) = drop (length (messages s) - MAX_HISTORY_LENGTH) (messages s)"
  by (simp add: enforce_max_length_def Let_def)

lemma enforce_length: "length (messages (enforce_max_length s)) \<le> MAX_HISTORY_LENGTH"
  by (simp add: enforce_messages)

lemma get_history_of: "get_history s = history_of (messages s)"
proof -
  have "(role msg \<in> set [User, Assistant]) = (role msg \<noteq> System)" for msg :: message
    by (cases "role msg") simp_all
  then show ?thesis by (simp add: get_history_def history_of_def)
qed

lemma history_of_length: "length (history_of ms) \<le> length ms"
  by (simp add: history_of_def)

lemma history_of_append: "history_of (xs @ ys) = history_of xs @ history_of ys"
  by (simp add: history_of_def)

lemma history_of_suffix:
  assumes "suffix xs ys"
  shows "suffix (history_of xs) (history_of ys)"
  unfolding history_of_def using assms
  by (intro map_mono_suffix filter_mono_suffix)

lemma suffix_is_drop:
  assumes "suffix xs ys"
  shows "xs = drop (length ys - length xs) ys"
proof -
  from assms obtain zs where "ys = zs @ xs" by (auto simp: suffix_def)
  then show ?thesis by simp
qed

text \<open>One call: what the buffer holds afterwards.\<close>

lemma apply_call_messages:
  "suffix (messages (apply_call c s)) (messages s @ appended c)"
proof -
  have "\<exists>k. messages (apply_call c s) = drop k (messages s @ appended c)"
  proof (cases c)
    case (AddUser body t_msg t_act)
    then have "messages (apply_call c s)
               = drop (if body = [] \<or> py_strip body = [] then 0
                       else length (messages s @ appended c) - MAX_HISTORY_LENGTH)
                   (messages s @ appended c)"
      by (simp add: add_user_message_def enforce_messages)
    then show ?thesis by blast
  next
    case (AddAssistant body t_msg t_act)
    then have "messages (apply_call c s)
               = drop (if body = [] \<or> py_strip body = [] then 0
                       else length (messages s @ appended c) - MAX_HISTORY_LENGTH)
                   (messages s @ appended c)"
      by (simp add: add_assistant_message_def enforce_messages)
    then show ?thesis by blast
  next
    case (AddSystem body t_msg)
    then have "messages (apply_call c s) = drop 0 (messages s @ appended c)"
      by (simp add: add_system_message_def)
    then show ?thesis by blast
  qed
  then obtain k where "messages (apply_call c s) = drop k (messages s @ appended c)" ..
  then show ?thesis by (simp only: suffix_drop)
qed

lemma apply_call_history_length:
  assumes "length (get_history s) \<le> MAX_HISTORY_LENGTH"
  shows "length (get_history (apply_call c s)) \<le> MAX_HISTORY_LENGTH"
proof (cases c)
  case (AddUser body t_msg t_act)
  show ?thesis
  proof (cases "body = [] \<or> py_strip body = []")
    case True
    with AddUser assms show ?thesis by (simp add: add_user_message_def)
  next
    case False
    then have "messages (apply_call c s) = messages (enforce_max_length
        (s\<lparr>messages := messages s @ [\<lparr>role = User, content = py_strip body, timestamp = t_msg\<rparr>],
           last_activity := t_act\<rparr>))"
      using AddUser by (simp add: add_user_message_def)
    then have "length (messages (apply_call c s)) \<le> MAX_HISTORY_LENGTH"
      by (simp only: enforce_length)
    moreover have "length (get_history (apply_call c s)) \<le> length (messages (apply_call c s))"
      by (simp add: get_history_of history_of_length)
    ultimately show ?thesis by linarith
  qed
next
  case (AddAssistant body t_msg t_act)
  show ?thesis
  proof (cases "body = [] \<or> py_strip body = []")
    case True
    with AddAssistant assms show ?thesis by (simp add: add_assistant_message_def)
  next
    case False
    then have "messages (apply_call c s) = messages (enforce_max_length
        (s\<lparr>messages := messages s @ [\<lparr>role = Assistant, content = py_strip body, timestamp = t_msg\<rparr>],
           last_activity := t_act\<rparr>))"
      using AddAssistant by (simp add: add_assistant_message_def)
    then have "length (messages (apply_call c s)) \<le> MAX_HISTORY_LENGTH"
      by (simp only: enforce_length)
    moreover have "length (get_history (apply_call c s)) \<le> length (messages (apply_call c s))"
      by (simp add: get_history_of history_of_length)
    ultimately show ?thesis by linarith
  qed
next
  case (AddSystem body t_msg)
  then have "get_history (apply_call c s) = get_history s"
    by (simp add: add_system_message_def get_history_of history_of_def)
  with assms show ?thesis by simp
qed

lemma run_calls_history_length:
  assumes "length (get_history s) \<le> MAX_HISTORY_LENGTH"
  shows "length (get_history (run_calls cs s)) \<le> MAX_HISTORY_LENGTH"
  using assms
proof (induction cs arbitrary: s)
  case Nil
  then show ?case by simp
next
  case (Cons c cs)
  from Cons.prems have "length (get_history (apply_call c s)) \<le> MAX_HISTORY_LENGTH"
    by (rule apply_call_history_length)
  then show ?case by (simp add: Cons.IH)
qed

lemma run_calls_messages:
  "suffix (messages (run_calls cs s)) (messages s @ concat (map appended cs))"
proof (induction cs arbitrary: s)
  case Nil
  then show ?case by simp
next
  case (Cons c cs)
  have "suffix (messages (run_calls cs (apply_call c s)))
          (messages (apply_call c s) @ concat (map appended cs))"
    by (rule Cons.IH)
  moreover have "suffix (messages (apply_call c s) @ concat (map appended cs))
          ((messages s @ appended c) @ concat (map appended cs))"
    using apply_call_messages[of c s] by (simp only: same_suffix_suffix)
  ultimately have "suffix (messages (run_calls cs (apply_call c s)))
          ((messages s @ appended c) @ concat (map appended cs))"
    by (rule suffix_order.trans)
  then show ?case by simp
qed

text \<open>Buffer and history are tails of what was appended.\<close>

lemma history_is_tail:
  "(let final = run_calls cs (init_manager sid t0 t1); sent = concat (map appended cs)
    in length (get_history final) \<le> MAX_HISTORY_LENGTH
       \<and> messages final = drop (length sent - length (messages final)) sent
       \<and> get_history final
           = drop (length (history_of sent) - length (get_history final)) (history_of sent))"
proof -
  define final where "final = run_calls cs (init_manager sid t0 t1)"
  define sent where "sent = concat (map appended cs)"
  have init: "messages (init_manager sid t0 t1) = []"
    by (simp add: init_manager_def)
  have "length (get_history (init_manager sid t0 t1)) \<le> MAX_HISTORY_LENGTH"
    by (simp add: get_history_def init)
  then have bound: "length (get_history final) \<le> MAX_HISTORY_LENGTH"
    unfolding final_def by (rule run_calls_history_length)
  have suf: "suffix (messages final) sent"
    using run_calls_messages[of cs "init_manager sid t0 t1"]
    by (simp add: final_def sent_def init)
  then have "suffix (get_history final) (history_of sent)"
    by (simp add: get_history_of history_of_suffix)
  with suf bound have "length (get_history final) \<le> MAX_HISTORY_LENGTH
       \<and> messages final = drop (length sent - length (messages final)) sent
       \<and> get_history final
           = drop (length (history_of sent) - length (get_history final)) (history_of sent)"
    by (auto dest: suffix_is_drop)
  then show ?thesis
    by (simp only: Let_def final_def sent_def)
qed

text \<open>Without system notes the buffer is exactly the last fifty appended messages.\<close>

lemma drop_window:
  "drop (length (drop (length xs - n) xs @ ys) - n) (drop (length xs - n) xs @ ys)
   = drop (length (xs @ ys) - n) (xs @ ys)"
proof -
  have "drop (length xs - n) xs @ ys = drop (length xs - n) (xs @ ys)"
    by simp
  moreover have "length (drop (length xs - n) (xs @ ys)) - n + (length xs - n) = length (xs @ ys) - n"
    by simp
  ultimately show ?thesis
    by (simp only: drop_drop)
qed

lemma no_system_exact:
  assumes "list_all (\<lambda>c. case c of AddSystem body t \<Rightarrow> False | _ \<Rightarrow> True) cs"
  shows "messages (run_calls cs (enforce_max_length s))
         = drop (length (messages s @ concat (map appended cs)) - MAX_HISTORY_LENGTH)
             (messages s @ concat (map appended cs))"
  using assms
proof (induction cs arbitrary: s)
  case Nil
  then show ?case by (simp add: enforce_messages)
next
  case (Cons c cs)
  let ?s1 = "enforce_max_length s"
  obtain s2 where s2: "apply_call c ?s1 = enforce_max_length s2"
    and m2: "messages s2 = messages ?s1 @ appended c"
  proof (cases c)
    case (AddUser body t_msg t_act)
    show ?thesis
    proof (cases "body = [] \<or> py_strip body = []")
      case True
      have "enforce_max_length ?s1 = ?s1"
        using enforce_length[of s] by (simp add: enforce_max_length_def)
      with True AddUser show ?thesis
        by (intro that[of ?s1]) (simp_all add: add_user_message_def)
    next
      case False
      with AddUser show ?thesis
        by (intro that[of "?s1\<lparr>messages := messages ?s1 @ [\<lparr>role = User, content = py_strip body, timestamp = t_msg\<rparr>],
                   last_activity := t_act\<rparr>"]) (simp_all add: add_user_message_def)
    qed
  next
    case (AddAssistant body t_msg t_act)
    show ?thesis
    proof (cases "body = [] \<or> py_strip body = []")
      case True
      have "enforce_max_length ?s1 = ?s1"
        using enforce_length[of s] by (simp add: enforce_max_length_def)
      with True AddAssistant show ?thesis
        by (intro that[of ?s1]) (simp_all add: add_assistant_message_def)
    next
      case False
      with AddAssistant show ?thesis
        by (intro that[of "?s1\<lparr>messages := messages ?s1 @ [\<lparr>role = Assistant, content = py_strip body, timestamp = t_msg\<rparr>],
                   last_activity := t_act\<rparr>"]) (simp_all add: add_assistant_message_def)
    qed
  next
    case (AddSystem body t_msg)
    with Cons.prems show ?thesis by simp
  qed
  have rest: "list_all (\<lambda>c. case c of AddSystem body t \<Rightarrow> False | _ \<Rightarrow> True) cs"
    using Cons.prems by simp
  have "messages (run_calls (c # cs) ?s1) = messages (run_calls cs (enforce_max_length s2))"
    by (simp add: s2)
  also have "\<dots> = drop (length (messages s2 @ concat (map appended cs)) - MAX_HISTORY_LENGTH)
            (messages s2 @ concat (map appended cs))"
    by (rule Cons.IH[OF rest])
  also have "messages s2 @ concat (map appended cs)
             = drop (length (messages s) - MAX_HISTORY_LENGTH) (messages s) @ concat (map appended (c # cs))"
    by (simp add: m2 enforce_messages)
  also have "drop (length (drop (length (messages s) - MAX_HISTORY_LENGTH) (messages s) @ concat (map appended (c # cs)))
                    - MAX_HISTORY_LENGTH)
               (drop (length (messages s) - MAX_HISTORY_LENGTH) (messages s) @ concat (map appended (c # cs)))
             = drop (length (messages s @ concat (map appended (c # cs))) - MAX_HISTORY_LENGTH)
                 (messages s @ concat (map appended (c # cs)))"
    by (rule drop_window)
  finally show ?case .
qed

lemma blank_user_noop:
  assumes "py_strip txt = []"
  shows "add_user_message txt t_msg t_act s = s \<and> add_assistant_message txt t_msg t_act s = s"
  using assms by (simp add: add_user_message_def add_assistant_message_def)

lemma append_updates_activity:
  assumes "py_strip txt \<noteq> []"
  shows "last_activity (add_user_message txt t_msg t_act s) = t_act
       \<and> last_activity (add_assistant_message txt t_msg t_act s) = t_act"
proof -
  have "txt \<noteq> []" using assms by (auto simp: py_strip_def)
  then show ?thesis using assms
    by (simp add: add_user_message_def add_assistant_message_def enforce_max_length_def Let_def)
qed

text \<open>
  C9 (a blank append is a no-op for each of the three roles, and every append that changes
  the buffer updates the last-activity time): \<open>add_system_message\<close> with a whitespace-only
  text at clock reading 7, on a manager created at 0, appends a system message with empty
  content and leaves \<open>last_activity\<close> at 0.  The user and assistant methods do both
  (\<open>blank_user_noop\<close>, \<open>append_updates_activity\<close>).
\<close>

theorem add_system_message_blank:
  "add_system_message ''   '' 7 (init_manager None 0 0)
   = \<lparr>messages = [\<lparr>role = System, content = '''', timestamp = 7\<rparr>], session_id = None,
      created_at = 0, last_activity = 0, is_active = True\<rparr>"
  by (simp add: add_system_message_def init_manager_def py_strip_def isspace_def)

subsection \<open>Exactly what is retained\<close>

lemma turn_note_split: "upto_last_turn ms @ trailing_notes ms = ms"
proof -
  have "rev (dropWhile is_note (rev ms)) @ rev (takeWhile is_note (rev ms))
        = rev (takeWhile is_note (rev ms) @ dropWhile is_note (rev ms))"
    by (simp only: rev_append)
  also have "\<dots> = ms"
    by (simp only: takeWhile_dropWhile_id rev_rev_ident)
  finally show ?thesis by (simp only: upto_last_turn_def trailing_notes_def)
qed

lemma append_note:
  assumes "is_note m"
  shows "trailing_notes (ms @ [m]) = trailing_notes ms @ [m]"
    and "upto_last_turn (ms @ [m]) = upto_last_turn ms"
  using assms by (simp_all add: trailing_notes_def upto_last_turn_def)

lemma append_turn:
  assumes "\<not> is_note m"
  shows "trailing_notes (ms @ [m]) = []"
    and "upto_last_turn (ms @ [m]) = ms @ [m]"
  using assms by (simp_all add: trailing_notes_def upto_last_turn_def)

lemma retained_note:
  assumes "is_note m"
  shows "retained (ms @ [m]) = retained ms @ [m]"
  by (simp add: retained_def last_turns_def append_note[OF assms])

lemma retained_is_drop:
  "retained ms = drop (length (upto_last_turn ms) - MAX_HISTORY_LENGTH) ms"
proof -
  have "drop (length (upto_last_turn ms) - MAX_HISTORY_LENGTH) (upto_last_turn ms @ trailing_notes ms)
        = retained ms"
    by (simp add: retained_def last_turns_def)
  then show ?thesis by (simp only: turn_note_split)
qed

lemma upto_last_turn_length: "length (upto_last_turn ms) \<le> length ms"
proof -
  have "length (upto_last_turn ms @ trailing_notes ms) = length ms"
    by (simp only: turn_note_split)
  then show ?thesis by simp
qed

lemma retained_turn:
  assumes "\<not> is_note m"
  shows "retained (ms @ [m])
         = drop (length (retained ms @ [m]) - MAX_HISTORY_LENGTH) (retained ms @ [m])"
proof -
  define k where "k = length (upto_last_turn ms) - MAX_HISTORY_LENGTH"
  have kle: "k \<le> length ms"
    using upto_last_turn_length[of ms] by (simp add: k_def)
  have r: "retained ms @ [m] = drop k (ms @ [m])"
    using kle by (simp add: retained_is_drop k_def)
  have "length (drop k (ms @ [m])) - MAX_HISTORY_LENGTH + k = length (ms @ [m]) - MAX_HISTORY_LENGTH"
    using kle upto_last_turn_length[of ms] by (simp add: k_def)
  then have "drop (length (drop k (ms @ [m])) - MAX_HISTORY_LENGTH) (drop k (ms @ [m]))
             = drop (length (ms @ [m]) - MAX_HISTORY_LENGTH) (ms @ [m])"
    by (simp only: drop_drop)
  moreover have "retained (ms @ [m]) = drop (length (ms @ [m]) - MAX_HISTORY_LENGTH) (ms @ [m])"
    by (simp add: retained_def last_turns_def append_turn[OF assms])
  ultimately show ?thesis by (simp only: r)
qed

lemma apply_call_retained:
  assumes "messages s = retained xs"
  shows "messages (apply_call c s) = retained (xs @ appended c)"
proof (cases c)
  case (AddUser body t_msg t_act)
  show ?thesis
  proof (cases "body = [] \<or> py_strip body = []")
    case True
    with AddUser assms show ?thesis by (simp add: add_user_message_def)
  next
    case False
    define m where "m = \<lparr>role = User, content = py_strip body, timestamp = t_msg\<rparr>"
    have "\<not> is_note m" by (simp add: is_note_def m_def)
    from retained_turn[OF this, of xs]
    have "retained (xs @ [m]) = drop (length (messages s @ [m]) - MAX_HISTORY_LENGTH) (messages s @ [m])"
      by (simp only: assms)
    moreover have "messages (apply_call c s)
          = drop (length (messages s @ [m]) - MAX_HISTORY_LENGTH) (messages s @ [m])"
      using False AddUser by (simp add: add_user_message_def enforce_messages m_def)
    moreover have "appended c = [m]"
      using False AddUser by (simp add: m_def)
    ultimately show ?thesis by simp
  qed
next
  case (AddAssistant body t_msg t_act)
  show ?thesis
  proof (cases "body = [] \<or> py_strip body = []")
    case True
    with AddAssistant assms show ?thesis by (simp add: add_assistant_message_def)
  next
    case False
    define m where "m = \<lparr>role = Assistant, content = py_strip body, timestamp = t_msg\<rparr>"
    have "\<not> is_note m" by (simp add: is_note_def m_def)
    from retained_turn[OF this, of xs]
    have "retained (xs @ [m]) = drop (length (messages s @ [m]) - MAX_HISTORY_LENGTH) (messages s @ [m])"
      by (simp only: assms)
    moreover have "messages (apply_call c s)
          = drop (length (messages s @ [m]) - MAX_HISTORY_LENGTH) (messages s @ [m])"
      using False AddAssistant by (simp add: add_assistant_message_def enforce_messages m_def)
    moreover have "appended c = [m]"
      using False AddAssistant by (simp add: m_def)
    ultimately show ?thesis by simp
  qed
next
  case (AddSystem body t_msg)
  define m where "m = \<lparr>role = System, content = py_strip body, timestamp = t_msg\<rparr>"
  have "is_note m" by (simp add: is_note_def m_def)
  then have "retained (xs @ [m]) = retained xs @ [m]" by (rule retained_note)
  with AddSystem assms show ?thesis
    by (simp add: add_system_message_def m_def)
qed

lemma run_calls_retained:
  assumes "messages s = retained xs"
  shows "messages (run_calls cs s) = retained (xs @ concat (map appended cs))"
  using assms
proof (induction cs arbitrary: s xs)
  case Nil
  then show ?case by simp
next
  case (Cons c cs)
  from Cons.prems have "messages (apply_call c s) = retained (xs @ appended c)"
    by (rule apply_call_retained)
  then have "messages (run_calls cs (apply_call c s))
             = retained ((xs @ appended c) @ concat (map appended cs))"
    by (rule Cons.IH)
  then show ?case by simp
qed

lemma history_of_notes:
  assumes "list_all is_note ms"
  shows "history_of ms = []"
  using assms by (induction ms) (simp_all add: history_of_def is_note_def)

lemma trailing_notes_are_notes: "list_all is_note (trailing_notes ms)"
proof -
  have "\<forall>x \<in> set (takeWhile is_note (rev ms)). is_note x"
    by (meson set_takeWhileD)
  then show ?thesis by (simp add: trailing_notes_def list_all_iff)
qed

lemma history_of_retained: "history_of (retained ms) = history_of (last_turns ms)"
  by (simp add: retained_def history_of_append history_of_notes trailing_notes_are_notes)

lemma retained_length: "min (length ms) MAX_HISTORY_LENGTH \<le> length (retained ms)"
proof -
  have "length ms = length (upto_last_turn ms) + length (trailing_notes ms)"
    by (metis length_append turn_note_split)
  then show ?thesis by (simp add: retained_def last_turns_def)
qed

lemma retained_no_notes:
  assumes "list_all (\<lambda>m. role m \<noteq> System) ms"
  shows "retained ms = drop (length ms - MAX_HISTORY_LENGTH) ms"
    and "history_of (last_turns ms) = drop (length (history_of ms) - MAX_HISTORY_LENGTH) (history_of ms)"
proof -
  have "takeWhile is_note (rev ms) = []"
    using assms by (cases "rev ms") (auto simp: is_note_def list_all_iff dest: arg_cong[where f=set])
  then have t: "trailing_notes ms = []" by (simp add: trailing_notes_def)
  with turn_note_split[of ms] have u: "upto_last_turn ms = ms" by simp
  show "retained ms = drop (length ms - MAX_HISTORY_LENGTH) ms"
    by (simp add: retained_def last_turns_def t u)
  have f: "filter (\<lambda>msg. role msg \<noteq> System) xs = xs" if "set xs \<subseteq> set ms" for xs
    using that assms by (auto simp: list_all_iff intro: filter_True)
  have "filter (\<lambda>msg. role msg \<noteq> System) ms = ms" by (rule f) simp
  moreover have "filter (\<lambda>msg. role msg \<noteq> System) (drop n ms) = drop n ms" for n
    by (rule f) (rule set_drop_subset)
  ultimately show "history_of (last_turns ms)
        = drop (length (history_of ms) - MAX_HISTORY_LENGTH) (history_of ms)"
    by (simp add: history_of_def last_turns_def u drop_map)
qed

lemma concat_replicate_single: "concat (replicate n [x]) = replicate n x"
  by (induction n) simp_all

text \<open>
  C2: after any sequence of \<open>add_user_message\<close>, \<open>add_assistant_message\<close> and
  \<open>add_system_message\<close> calls on a new manager, with \<open>sent\<close> the messages those calls
  appended, in order:
  \<^item> \<open>get_history\<close> has at most \<open>MAX_HISTORY_LENGTH\<close> entries;
  \<^item> the buffer is exactly \<open>retained sent\<close>: the last \<open>MAX_HISTORY_LENGTH\<close> messages up to
    the last user or assistant message, then the system notes appended after it; and the
    history is exactly the user and assistant entries of that window;
  \<^item> at least the \<open>MAX_HISTORY_LENGTH\<close> most recent messages (all of them, when fewer
    were appended) are in the buffer;
  \<^item> buffer and history are tails of what was appended, so the order is kept and the
    oldest go first;
  \<^item> when no system note was appended, the buffer is the last \<open>MAX_HISTORY_LENGTH\<close>
    appended messages and the history the last \<open>MAX_HISTORY_LENGTH\<close> appended entries.
\<close>

theorem history_bounded_and_recent:
  "(let final = run_calls cs (init_manager sid t0 t1); sent = concat (map appended cs)
    in length (get_history final) \<le> MAX_HISTORY_LENGTH
       \<and> messages final = retained sent
       \<and> get_history final = history_of (last_turns sent)
       \<and> min (length sent) MAX_HISTORY_LENGTH \<le> length (messages final)
       \<and> messages final = drop (length sent - length (messages final)) sent
       \<and> get_history final
           = drop (length (history_of sent) - length (get_history final)) (history_of sent)
       \<and> (list_all (\<lambda>m. role m \<noteq> System) sent \<longrightarrow>
            messages final = drop (length sent - MAX_HISTORY_LENGTH) sent
            \<and> get_history final
                = drop (length (history_of sent) - MAX_HISTORY_LENGTH) (history_of sent)))"
proof -
  define final where "final = run_calls cs (init_manager sid t0 t1)"
  define sent where "sent = concat (map appended cs)"
  have "messages (init_manager sid t0 t1) = retained []"
    by (simp add: init_manager_def retained_def last_turns_def upto_last_turn_def trailing_notes_def)
  then have "messages final = retained ([] @ sent)"
    unfolding final_def sent_def by (rule run_calls_retained)
  then have exact: "messages final = retained sent" by simp
  then have hist: "get_history final = history_of (last_turns sent)"
    by (simp add: get_history_of history_of_retained)
  have keep: "min (length sent) MAX_HISTORY_LENGTH \<le> length (messages final)"
    by (simp only: exact retained_length)
  have tail: "length (get_history final) \<le> MAX_HISTORY_LENGTH
       \<and> messages final = drop (length sent - length (messages final)) sent
       \<and> get_history final
           = drop (length (history_of sent) - length (get_history final)) (history_of sent)"
    using history_is_tail[of cs sid t0 t1]
    by (simp only: Let_def final_def sent_def)
  have plain: "messages final = drop (length sent - MAX_HISTORY_LENGTH) sent
            \<and> get_history final
                = drop (length (history_of sent) - MAX_HISTORY_LENGTH) (history_of sent)"
    if "list_all (\<lambda>m. role m \<noteq> System) sent"
    using retained_no_notes[OF that] by (simp only: exact hist)
  from exact hist keep tail plain
  have all: "length (get_history final) \<le> MAX_HISTORY_LENGTH
       \<and> messages final = retained sent
       \<and> get_history final = history_of (last_turns sent)
       \<and> min (length sent) MAX_HISTORY_LENGTH \<le> length (messages final)
       \<and> messages final = drop (length sent - length (messages final)) sent
       \<and> get_history final
           = drop (length (history_of sent) - length (get_history final)) (history_of sent)
       \<and> (list_all (\<lambda>m. role m \<noteq> System) sent \<longrightarrow>
            messages final = drop (length sent - MAX_HISTORY_LENGTH) sent
            \<and> get_history final
                = drop (length (history_of sent) - MAX_HISTORY_LENGTH) (history_of sent))"
    by blast
  show ?thesis
    unfolding Let_def by (rule all[unfolded final_def sent_def])
qed

theorem history_bounded_and_recent_witness:
  "messages (run_calls (replicate 51 (AddUser ''hi'' 7 8) @ [AddSystem ''note'' 9, AddAssistant ''bye'' 10 11])
       (init_manager None 0 0))
   = replicate 48 \<lparr>role = User, content = ''hi'', timestamp = 7\<rparr>
     @ [\<lparr>role = System, content = ''note'', timestamp = 9\<rparr>,
        \<lparr>role = Assistant, content = ''bye'', timestamp = 10\<rparr>]
   \<and> get_history (run_calls (replicate 51 (AddUser ''hi'' 7 8)) (init_manager None 0 0))
   = replicate 50 (User, ''hi'')"
proof -
  let ?u = "\<lparr>role = User, content = ''hi'', timestamp = 7\<rparr>"
  let ?n = "\<lparr>role = System, content = ''note'', timestamp = 9\<rparr>"
  let ?a = "\<lparr>role = Assistant, content = ''bye'', timestamp = 10\<rparr>"
  have s: "py_strip ''hi'' = ''hi''" "py_strip ''note'' = ''note''" "py_strip ''bye'' = ''bye''"
    by code_simp+
  have au: "appended (AddUser ''hi'' 7 8) = [?u]" by (simp add: s)
  have sent1: "concat (map appended (replicate 51 (AddUser ''hi'' 7 8) @ [AddSystem ''note'' 9, AddAssistant ''bye'' 10 11]))
               = replicate 51 ?u @ [?n, ?a]"
    by (simp add: au s concat_replicate_single)
  have sent2: "concat (map appended (replicate 51 (AddUser ''hi'' 7 8))) = replicate 51 ?u"
    by (simp add: au s concat_replicate_single)
  have turn: "upto_last_turn (replicate 51 ?u @ [?n, ?a]) = replicate 51 ?u @ [?n, ?a]"
    and tn: "trailing_notes (replicate 51 ?u @ [?n, ?a]) = []"
    by (simp_all add: upto_last_turn_def trailing_notes_def is_note_def)
  have r1: "retained (replicate 51 ?u @ [?n, ?a]) = replicate 48 ?u @ [?n, ?a]"
    by (simp add: retained_def last_turns_def turn tn MAX_HISTORY_LENGTH_def)
  have nosys: "list_all (\<lambda>m. role m \<noteq> System) (replicate 51 ?u)"
    by (simp add: list_all_iff)
  have h2: "history_of (replicate 51 ?u) = replicate 51 (User, ''hi'')"
    by (simp add: history_of_def)
  from history_bounded_and_recent[of "replicate 51 (AddUser ''hi'' 7 8) @ [AddSystem ''note'' 9, AddAssistant ''bye'' 10 11]" None 0 0]
  have a: "messages (run_calls (replicate 51 (AddUser ''hi'' 7 8) @ [AddSystem ''note'' 9, AddAssistant ''bye'' 10 11])
       (init_manager None 0 0)) = replicate 48 ?u @ [?n, ?a]"
    unfolding Let_def sent1 r1 by blast
  from history_bounded_and_recent[of "replicate 51 (AddUser ''hi'' 7 8)" None 0 0] nosys
  have "get_history (run_calls (replicate 51 (AddUser ''hi'' 7 8)) (init_manager None 0 0))
        = drop (length (replicate 51 (User, ''hi'')) - MAX_HISTORY_LENGTH) (replicate 51 (User, ''hi''))"
    unfolding Let_def sent2 h2 by blast
  then have b: "get_history (run_calls (replicate 51 (AddUser ''hi'' 7 8)) (init_manager None 0 0))
        = replicate 50 (User, ''hi'')"
    by (simp add: MAX_HISTORY_LENGTH_def)
  from a b show ?thesis by (rule conjI)
qed

section \<open>Properties of the mock chat backend\<close>

lemma choice_mem:
  assumes "xs \<noteq> []"
  shows "choice r xs \<in> set xs"
  using assms by (simp add: choice_def)

lemma any_in_mem:
  assumes "w \<in> set ws" and "contains s w"
  shows "any_in ws s"
  using assms by (auto simp: any_in_def list_ex_iff)

lemma chat_first_exchange:
  assumes "length (filter (\<lambda>m. fst m = User) msgs) \<le> 1"
  shows "chat_completion r msgs p \<in> set greetings"
proof -
  have "chat_completion r msgs p = choice r greetings"
    using assms by (simp add: chat_completion_def)
  moreover have "greetings \<noteq> []" by (simp add: greetings_def)
  ultimately show ?thesis by (simp add: choice_mem)
qed

lemma chat_negative:
  assumes "2 \<le> length (filter (\<lambda>m. fst m = User) msgs)"
    and "contains (py_lower (snd (last msgs))) ''terrible''"
  shows "chat_completion r msgs p \<in> set negatives"
proof -
  from assms(1) have ne: "msgs \<noteq> []" by auto
  have "any_in [''bad'', ''terrible'', ''awful'', ''horrible'', ''worst''] (py_lower (snd (last msgs)))"
    using assms(2) by (intro any_in_mem[of "''terrible''"]) simp_all
  then have "chat_completion r msgs p = choice r negatives"
    using assms(1) ne by (simp add: chat_completion_def)
  moreover have "negatives \<noteq> []" by (simp add: negatives_def)
  ultimately show ?thesis by (simp add: choice_mem)
qed

lemma latest_user_is_last:
  assumes "msgs \<noteq> []" and "fst (last msgs) = User"
  shows "latest_user_message msgs = snd (last msgs)"
proof -
  obtain ys y where msgs: "msgs = ys @ [y]"
    using assms(1) by (metis append_butlast_last_id)
  with assms(2) have "fst y = User" by simp
  then have "filter (\<lambda>m. fst m = User) msgs = filter (\<lambda>m. fst m = User) ys @ [y]"
    by (simp add: msgs)
  then have "filter (\<lambda>m. fst m = User) msgs \<noteq> []"
    and "last (filter (\<lambda>m. fst m = User) msgs) = last msgs"
    by (simp_all add: msgs)
  then show ?thesis
    by (cases "filter (\<lambda>m. fst m = User) msgs") (simp_all add: latest_user_message_def)
qed

text \<open>
  C7, as amended: for the mock chat backend, a history with at most one user message gets a
  reply from the greeting set, whatever that message says; a history with at least two user
  messages that ends with a user message whose lower-cased text contains \<open>terrible\<close> gets a
  reply from the negative-response set.  This holds for every draw \<open>r\<close> of the generator.
\<close>

theorem mock_reply_sets:
  "(length (filter (\<lambda>m. fst m = User) msgs) \<le> 1 \<longrightarrow> chat_completion r msgs p \<in> set greetings)
   \<and> (2 \<le> length (filter (\<lambda>m. fst m = User) msgs) \<and> msgs \<noteq> [] \<and> fst (last msgs) = User
        \<and> contains (py_lower (latest_user_message msgs)) ''terrible''
        \<longrightarrow> chat_completion r msgs p \<in> set negatives)"
  using chat_first_exchange chat_negative latest_user_is_last by auto

theorem mock_reply_sets_witness:
  "chat_completion 2 [(Assistant, ''Hello''), (User, ''It was terrible'')] ''p'' \<in> set greetings
   \<and> chat_completion 1 [(Assistant, ''Hello''), (User, ''It was ok''), (Assistant, ''I see''),
        (User, ''The food was TERRIBLE'')] ''p'' \<in> set negatives"
proof -
  have a: "length (filter (\<lambda>m. fst m = User) [(Assistant, ''Hello''), (User, ''It was terrible'')]) \<le> 1"
    by simp
  let ?h = "[(Assistant, ''Hello''), (User, ''It was ok''), (Assistant, ''I see''),
        (User, ''The food was TERRIBLE'')]"
  have b: "2 \<le> length (filter (\<lambda>m. fst m = User) ?h)" by simp
  have c: "contains (py_lower (latest_user_message ?h)) ''terrible''"
    by code_simp
  have d: "?h \<noteq> [] \<and> fst (last ?h) = User" by simp
  show ?thesis
    using mock_reply_sets[of "[(Assistant, ''Hello''), (User, ''It was terrible'')]" 2 "''p''"]
      mock_reply_sets[of ?h 1 "''p''"] a b c d
    by blast
qed

text \<open>
  C7 as stated fails: the first user message \<open>The visit was terrible\<close> (after the assistant's
  greeting) is answered from the greeting set, and a history whose latest user message
  contains \<open>terrible\<close> but whose last entry is an assistant message is answered from the
  defaults; neither reply is in the negative-response set.
\<close>

theorem mock_terrible_counterexample:
  "contains (latest_user_message [(Assistant, greeting), (User, ''The visit was terrible'')]) ''terrible''
   \<and> chat_completion 0 [(Assistant, greeting), (User, ''The visit was terrible'')] '''' \<notin> set negatives
   \<and> contains (latest_user_message [(User, ''Hi''), (User, ''It was terrible''), (Assistant, ''Noted'')]) ''terrible''
   \<and> chat_completion 0 [(User, ''Hi''), (User, ''It was terrible''), (Assistant, ''Noted'')] '''' \<notin> set negatives"
  by code_simp

section \<open>Properties of the session orchestrator\<close>

lemma lower_char_space: "isspace (lower_char c) = isspace c"
proof -
  define n where "n = (of_char c :: nat)"
  have lt: "n < 256" by (simp add: n_def)
  show ?thesis
  proof (cases "(65 \<le> n \<and> n \<le> 90) \<or> (192 \<le> n \<and> n \<le> 222 \<and> n \<noteq> 215)")
    case True
    then have up: "lower_char c = char_of (n + 32)"
      by (simp add: lower_char_def n_def)
    have "n + 32 < 256" using True by linarith
    then have "(of_char (char_of (n + 32)) :: nat) = n + 32"
      by (simp add: of_char_of)
    then have "\<not> isspace (lower_char c)"
      using True unfolding up isspace_def by auto
    moreover have "\<not> isspace c"
      using True unfolding isspace_def n_def[symmetric] by auto
    ultimately show ?thesis by simp
  next
    case False
    then have "lower_char c = c"
      unfolding lower_char_def Let_def n_def by (rule if_not_P)
    then show ?thesis by simp
  qed
qed

lemma lower_no_space:
  assumes "list_all (\<lambda>c. \<not> isspace c) (py_lower s)"
  shows "list_all (\<lambda>c. \<not> isspace c) s"
  using assms by (simp add: py_lower_def list_all_iff lower_char_space)

lemma strip_no_space:
  assumes "list_all (\<lambda>c. \<not> isspace c) s"
  shows "py_strip s = s"
proof (cases "s = []")
  case True
  then show ?thesis by (simp add: py_strip_def)
next
  case False
  then have "hd s \<in> set s" and "last s \<in> set s" by simp_all
  with assms have "\<not> isspace (hd s) \<and> \<not> isspace (last s)"
    by (simp add: list_all_iff)
  then show ?thesis by (intro strip_unchanged) simp
qed

lemma end_command_words:
  assumes "w \<in> set [''end'', ''stop'', ''finish'', ''done'']"
  shows "w \<noteq> [] \<and> list_all (\<lambda>c. \<not> isspace c) w"
proof -
  from assms have "w = ''end'' \<or> w = ''stop'' \<or> w = ''finish'' \<or> w = ''done''"
    by simp
  then show ?thesis
    by (elim disjE) (simp_all add: isspace_def)
qed

lemma end_command_text:
  assumes "py_lower m \<in> set [''end'', ''stop'', ''finish'', ''done'']"
  shows "py_strip m = m \<and> m \<noteq> []"
proof -
  from end_command_words[OF assms]
  have ne: "py_lower m \<noteq> []" and ns: "list_all (\<lambda>c. \<not> isspace c) (py_lower m)"
    by blast+
  from ns have "list_all (\<lambda>c. \<not> isspace c) m" by (rule lower_no_space)
  then have "py_strip m = m" by (rule strip_no_space)
  moreover from ne have "m \<noteq> []" by (auto simp: py_lower_def)
  ultimately show ?thesis by simp
qed

lemma closing_msg_stripped: "py_strip closing_msg = closing_msg"
  by code_simp

lemma closing_msg_nonempty: "closing_msg \<noteq> []"
  by (simp add: closing_msg_def)

lemma add_assistant_closing:
  "add_assistant_message closing_msg t_msg t_act conv
   = conv\<lparr>messages := drop (Suc (length (messages conv)) - MAX_HISTORY_LENGTH)
                         (messages conv @ [\<lparr>role = Assistant, content = closing_msg, timestamp = t_msg\<rparr>]),
           last_activity := t_act\<rparr>"
proof -
  let ?s = "conv\<lparr>messages := messages conv @ [\<lparr>role = Assistant, content = closing_msg, timestamp = t_msg\<rparr>],
                  last_activity := t_act\<rparr>"
  have "add_assistant_message closing_msg t_msg t_act conv = enforce_max_length ?s"
    by (simp add: add_assistant_message_def closing_msg_stripped closing_msg_nonempty)
  also have "\<dots> = ?s\<lparr>messages := drop (length (messages ?s) - MAX_HISTORY_LENGTH) (messages ?s)\<rparr>"
    by (simp add: enforce_max_length_def Let_def)
  finally show ?thesis by simp
qed

text \<open>
  C6, as amended: in a session that exists, a message that equals \<open>end\<close>, \<open>stop\<close>,
  \<open>finish\<close> or \<open>done\<close> up to letter case makes \<open>send_message\<close> return exactly what the
  explicit end endpoint returns: the success response with \<open>is_active: False\<close> and
  \<open>should_analyze: True\<close>, the closing message and the transcript of the updated buffer.
  The manager gets the closing assistant message appended (and nothing else, so the command
  text is not in the buffer) and no provider is called.  The session itself is not moved to
  an ended state: it stays registered under its id and its manager's \<open>is_active\<close> flag is
  what it was.
\<close>

theorem end_command_ends_session:
  assumes "sessions sid = Some conv" and "sid \<noteq> []"
    and "req_session_id data = Some sid"
    and "py_lower (req_message data) \<in> set [''end'', ''stop'', ''finish'', ''done'']"
  shows "(let conv1 = conv\<lparr>messages := drop (Suc (length (messages conv)) - MAX_HISTORY_LENGTH)
                         (messages conv @ [\<lparr>role = Assistant, content = closing_msg, timestamp = clk 0\<rparr>]),
                       last_activity := clk 1\<rparr>
          in send_message primary fallback prompt clk data sessions
               = (EndResponse closing_msg (get_conversation_transcript conv1) False True sid, sessions(sid \<mapsto> conv1), [])
             \<and> end_conversational_session clk data sessions
               = (EndResponse closing_msg (get_conversation_transcript conv1) False True sid, sessions(sid \<mapsto> conv1))
             \<and> is_active conv1 = is_active conv)"
proof -
  let ?c1 = "add_assistant_message closing_msg (clk 0) (clk 1) conv"
  from end_command_text[OF assms(4)]
  have m: "py_strip (req_message data) = req_message data" "req_message data \<noteq> []"
    by blast+
  have e: "end_conversational_session_internal clk (Some sid) sessions
           = (EndResponse closing_msg (get_conversation_transcript ?c1) False True sid, sessions(sid \<mapsto> ?c1))"
    using assms(1,2) by (simp add: end_conversational_session_internal_def Let_def)
  have "send_message primary fallback prompt clk data sessions
        = (EndResponse closing_msg (get_conversation_transcript ?c1) False True sid, sessions(sid \<mapsto> ?c1), [])"
    unfolding send_message_def Let_def m(1) assms(3)
    using assms(1,2,4) m(2) by (simp add: e)
  moreover have "end_conversational_session clk data sessions
        = (EndResponse closing_msg (get_conversation_transcript ?c1) False True sid, sessions(sid \<mapsto> ?c1))"
    using assms(3) by (simp add: end_conversational_session_def e)
  ultimately show ?thesis
    unfolding Let_def add_assistant_closing by simp
qed

theorem end_command_ends_session_witness:
  "send_message (mock_chat 0) (mock_chat 0) ''p'' (\<lambda>i. i)
     \<lparr>req_message = ''Done'', req_session_id = Some ''s1''\<rparr> [''s1'' \<mapsto> init_manager None 0 0]
   = (EndResponse closing_msg (''Assistant: '' @ closing_msg) False True ''s1'',
      [''s1'' \<mapsto> \<lparr>messages = [\<lparr>role = Assistant, content = closing_msg, timestamp = 0\<rparr>],
                    session_id = None, created_at = 0, last_activity = 1, is_active = True\<rparr>],
      [])"
proof -
  let ?data = "\<lparr>req_message = ''Done'', req_session_id = Some ''s1''\<rparr>"
  let ?sessions = "[''s1'' \<mapsto> init_manager None 0 0]"
  have h1: "?sessions ''s1'' = Some (init_manager None 0 0)" by simp
  have h2: "''s1'' \<noteq> []" by simp
  have h3: "req_session_id ?data = Some ''s1''" by simp
  have "py_lower ''Done'' = ''done''" by code_simp
  then have h4: "py_lower (req_message ?data) \<in> set [''end'', ''stop'', ''finish'', ''done'']"
    by simp
  show ?thesis
    using end_command_ends_session[where sessions = ?sessions and data = ?data and clk = "\<lambda>i. i"
        and primary = "mock_chat 0" and fallback = "mock_chat 0" and prompt = "''p''", OF h1 h2 h3 h4]
    by (simp add: Let_def init_manager_def get_conversation_transcript_def MAX_HISTORY_LENGTH_def)
qed

text \<open>
  C6 as stated (the session transitions to the ended state) fails: after the message
  \<open>end\<close> the manager stored for the session still has \<open>is_active = True\<close>, and a further
  message on the same session is answered like any other, with \<open>is_active: True\<close>.  Only
  the response to the end command says \<open>is_active: False\<close>.
\<close>

theorem end_command_session_stays_active:
  "fst (snd (send_message (mock_chat 0) (mock_chat 0) ''p'' tick
        \<lparr>req_message = ''end'', req_session_id = Some ''s1''\<rparr> [''s1'' \<mapsto> init_manager None 0 0])) ''s1''
   = Some \<lparr>messages = [\<lparr>role = Assistant, content = closing_msg, timestamp = 0\<rparr>],
            session_id = None, created_at = 0, last_activity = 1, is_active = True\<rparr>
   \<and> fst (send_message (mock_chat 0) (mock_chat 0) ''p'' tick
        \<lparr>req_message = ''One more thing'', req_session_id = Some ''s1''\<rparr>
        (fst (snd (send_message (mock_chat 0) (mock_chat 0) ''p'' tick
           \<lparr>req_message = ''end'', req_session_id = Some ''s1''\<rparr> [''s1'' \<mapsto> init_manager None 0 0]))))
   = MessageResponse (greetings ! 0) True ''s1''"
proof -
  let ?ended = "\<lparr>messages = [\<lparr>role = Assistant, content = closing_msg, timestamp = 0\<rparr>],
            session_id = None, created_at = 0, last_activity = 1, is_active = True\<rparr>"
  have e: "py_strip ''end'' = ''end''" "py_lower ''end'' = ''end''"
    by code_simp+
  have c: "add_assistant_message closing_msg (tick 0) (tick 1) (init_manager None 0 0) = ?ended"
    by (simp add: add_assistant_closing init_manager_def tick_def MAX_HISTORY_LENGTH_def)
  have first: "send_message (mock_chat 0) (mock_chat 0) ''p'' tick
        \<lparr>req_message = ''end'', req_session_id = Some ''s1''\<rparr> [''s1'' \<mapsto> init_manager None 0 0]
      = (EndResponse closing_msg (get_conversation_transcript ?ended) False True ''s1'', [''s1'' \<mapsto> ?ended], [])"
    using c by (simp add: send_message_def end_conversational_session_internal_def Let_def e)
  have m: "py_strip ''One more thing'' = ''One more thing''"
    "py_lower ''One more thing'' = ''one more thing''"
    by code_simp+
  have h: "get_history (add_user_message ''One more thing'' (tick 0) (tick 1) ?ended)
           = [(Assistant, closing_msg), (User, ''One more thing'')]"
    by (simp add: add_user_message_def enforce_max_length_def MAX_HISTORY_LENGTH_def get_history_def m)
  have r: "chat_completion 0 [(Assistant, closing_msg), (User, ''One more thing'')] ''p'' = greetings ! 0"
    by (simp add: chat_completion_def choice_def greetings_def)
  have second: "fst (send_message (mock_chat 0) (mock_chat 0) ''p'' tick
        \<lparr>req_message = ''One more thing'', req_session_id = Some ''s1''\<rparr> [''s1'' \<mapsto> ?ended])
      = MessageResponse (greetings ! 0) True ''s1''"
    using h r by (simp add: send_message_def Let_def m chat_with_fallback_def mock_chat_def)
  show ?thesis
    unfolding first using second by simp
qed





section \<open>Properties of the summary bullets\<close>

lemma strip_ends:
  assumes "py_strip s \<noteq> []"
  shows "\<not> isspace (hd (py_strip s)) \<and> \<not> isspace (last (py_strip s))"
proof -
  define t where "t = dropWhile isspace s"
  define u where "u = dropWhile isspace (rev t)"
  have ps: "py_strip s = rev u" by (simp add: py_strip_def t_def u_def)
  with assms have u: "u \<noteq> []" by simp
  then have "\<not> isspace (hd u)"
    unfolding u_def by (rule hd_dropWhile)
  then have l: "\<not> isspace (last (py_strip s))"
    using u by (simp add: ps last_rev)
  from u have t: "t \<noteq> []" by (auto simp: u_def)
  then have ht: "\<not> isspace (hd t)"
    unfolding t_def by (rule hd_dropWhile)
  have "rev t = takeWhile isspace (rev t) @ u"
    by (simp add: u_def)
  then have "last (rev t) = last u"
    using u by (metis last_appendR)
  then have "hd (rev u) = hd t"
    using t u by (simp add: hd_rev last_rev)
  with ht l show ?thesis by (simp add: ps)
qed

lemma strip_idem: "py_strip (py_strip s) = py_strip s"
  using strip_ends[of s] by (intro strip_unchanged) blast

lemma split_acc_empty:
  "(split_acc cur s = []) = (cur = [] \<and> list_all isspace s)"
  by (induction s arbitrary: cur) auto

lemma join_empty:
  assumes "list_all word_ok ws"
  shows "(py_join '' '' ws = []) = (ws = [])"
  using join_ends[OF assms] by auto

lemma clean_str_empty_iff: "(clean_str b = []) = (py_strip b = [])"
proof (cases "py_strip b = []")
  case True
  then show ?thesis by (simp add: clean_str_def py_split_def)
next
  case False
  then have "\<not> isspace (hd (py_strip b))" using strip_ends by blast
  with False have "\<not> list_all isspace (py_strip b)"
    by (cases "py_strip b") simp_all
  then have "py_split (py_strip b) \<noteq> []"
    by (simp add: py_split_def split_acc_empty)
  then have "py_join '' '' (py_split (py_strip b)) \<noteq> []"
    by (simp add: join_empty py_split_words)
  with False show ?thesis by (simp add: clean_str_def)
qed

lemma clean_str_strip: "clean_str (py_strip b) = clean_str b"
  by (simp add: clean_str_def strip_idem)

text \<open>The loop keeps the non-empty texts of its elements, unless cleaning one of them raises.\<close>

lemma bullets_loop_clean_all:
  "bullets_loop L xs cleaned =
     (case clean_all L xs of Inl err \<Rightarrow> Inl err | Inr ts \<Rightarrow> Inr (cleaned @ filter (\<lambda>t. t \<noteq> []) ts))"
  by (induction xs arbitrary: cleaned) (simp_all split: sum.splits)

lemma clean_all_strings: "clean_all L (map PStr ss) = Inr (map clean_str ss)"
  by (induction ss) (simp_all add: clean_text_str)

lemma validate_bullets_list:
  "validate_bullets L (PList xs) =
     (case clean_all L (take 5 xs) of
        Inl err \<Rightarrow> Inl err
      | Inr ts \<Rightarrow> Inr (or_placeholder (filter (\<lambda>t. t \<noteq> []) ts)))"
  by (simp add: validate_bullets_def bullets_loop_clean_all or_placeholder_def split: sum.splits)

lemma comma_parts:
  "filter (\<lambda>t. t \<noteq> []) (map clean_str (take 5 (map py_strip (filter (\<lambda>b. py_strip b \<noteq> []) parts))))
   = take 5 (filter (\<lambda>t. t \<noteq> []) (map clean_str parts))"
proof -
  define F where "F = filter (\<lambda>b. py_strip b \<noteq> []) parts"
  have nonempty: "\<forall>t \<in> set (take 5 (map clean_str F)). t \<noteq> []"
  proof
    fix t assume "t \<in> set (take 5 (map clean_str F))"
    then have "t \<in> set (map clean_str F)" by (rule in_set_takeD)
    then show "t \<noteq> []" by (auto simp: F_def clean_str_empty_iff)
  qed
  have "map clean_str (take 5 (map py_strip F)) = take 5 (map clean_str F)"
    by (simp add: take_map clean_str_strip)
  then have "filter (\<lambda>t. t \<noteq> []) (map clean_str (take 5 (map py_strip F)))
             = filter (\<lambda>t. t \<noteq> []) (take 5 (map clean_str F))"
    by (rule arg_cong)
  also have "\<dots> = take 5 (map clean_str F)"
    using nonempty by (simp only: filter_True)
  also have "map clean_str F = filter (\<lambda>t. t \<noteq> []) (map clean_str parts)"
    by (simp add: filter_map comp_def F_def clean_str_empty_iff)
  finally show ?thesis
    unfolding F_def .
qed

lemma validate_bullets_str:
  "validate_bullets L (PStr s)
   = Inr (or_placeholder (take 5 (filter (\<lambda>t. t \<noteq> []) (map clean_str (split_on CHR '','' s)))))"
proof -
  define F where "F = filter (\<lambda>b. py_strip b \<noteq> []) (split_on CHR '','' s)"
  have "take 5 (map (\<lambda>b. PStr (py_strip b)) F) = map PStr (take 5 (map py_strip F))"
    by (simp add: take_map)
  then have "clean_all L (take 5 (map (\<lambda>b. PStr (py_strip b)) F))
             = Inr (map clean_str (take 5 (map py_strip F)))"
    by (simp only: clean_all_strings)
  then have "validate_bullets L (PList (map (\<lambda>b. PStr (py_strip b)) F))
             = Inr (or_placeholder (filter (\<lambda>t. t \<noteq> []) (map clean_str (take 5 (map py_strip F)))))"
    by (simp add: validate_bullets_list)
  moreover have "validate_bullets L (PStr s) = validate_bullets L (PList (map (\<lambda>b. PStr (py_strip b)) F))"
    by (simp add: validate_bullets_def F_def)
  ultimately show ?thesis
    by (simp only: F_def comma_parts)
qed

text \<open>
  C5, as amended: \<open>validate_bullets\<close> gives the placeholder for \<open>None\<close>; for a string, the
  comma-separated pieces cleaned (trimmed, whitespace collapsed), the empty ones dropped,
  and the first five of the rest; for a list, the first five elements cleaned and the
  empty ones among them dropped, or the exception of \<open>str\<close> when one of these five has no
  text; the placeholder for any other value; and the placeholder whenever nothing is left.
\<close>

theorem validate_bullets_behaviour:
  "validate_bullets L PNone = Inr [placeholder]
   \<and> validate_bullets L (PStr s)
       = Inr (or_placeholder (take 5 (filter (\<lambda>t. t \<noteq> []) (map clean_str (split_on CHR '','' s)))))
   \<and> (clean_all L (take 5 xs) = Inr ts \<longrightarrow>
        validate_bullets L (PList xs) = Inr (or_placeholder (filter (\<lambda>t. t \<noteq> []) ts)))
   \<and> (clean_all L (take 5 xs) = Inl err \<longrightarrow> validate_bullets L (PList xs) = Inl err)
   \<and> validate_bullets L (PBool b) = Inr [placeholder]
   \<and> validate_bullets L (PInt i) = Inr [placeholder]
   \<and> validate_bullets L (PFloat f) = Inr [placeholder]
   \<and> validate_bullets L (PDict d) = Inr [placeholder]"
proof -
  have "clean_all L (take 5 xs) = Inr ts \<longrightarrow>
        validate_bullets L (PList xs) = Inr (or_placeholder (filter (\<lambda>t. t \<noteq> []) ts))"
    by (simp add: validate_bullets_list)
  moreover have "clean_all L (take 5 xs) = Inl err \<longrightarrow> validate_bullets L (PList xs) = Inl err"
    by (simp add: validate_bullets_list)
  moreover have "validate_bullets L PNone = Inr [placeholder]"
    "validate_bullets L (PBool b) = Inr [placeholder]"
    "validate_bullets L (PInt i) = Inr [placeholder]"
    "validate_bullets L (PFloat f) = Inr [placeholder]"
    "validate_bullets L (PDict d) = Inr [placeholder]"
    by (simp_all add: validate_bullets_def)
  ultimately show ?thesis
    using validate_bullets_str[of L s] by blast
qed

theorem validate_bullets_behaviour_witness:
  "validate_bullets no_lib (PList [PStr ''  long   wait '', PNone, PInt 7, PStr ''d'', PStr ''e'', PStr ''f''])
     = Inr [''long wait'', ''7'', ''d'', ''e'']
   \<and> validate_bullets no_lib (PList [PStr ''a'', PInt (10 ^ 4300)]) = Inl ValueError"
proof -
  have c: "clean_all no_lib (take 5 [PStr ''  long   wait '', PNone, PInt 7, PStr ''d'', PStr ''e'', PStr ''f''])
           = Inr [''long wait'', '''', ''7'', ''d'', ''e'']"
    by code_simp
  have "or_placeholder (filter (\<lambda>t. t \<noteq> []) [''long wait'', '''', ''7'', ''d'', ''e''])
        = [''long wait'', ''7'', ''d'', ''e'']"
    by (simp add: or_placeholder_def)
  with validate_bullets_behaviour[of no_lib "''''" "[PStr ''  long   wait '', PNone, PInt 7, PStr ''d'', PStr ''e'', PStr ''f'']"
      "[''long wait'', '''', ''7'', ''d'', ''e'']" ValueError True 0 FNan "[]"] c
  have returns: "validate_bullets no_lib (PList [PStr ''  long   wait '', PNone, PInt 7, PStr ''d'', PStr ''e'', PStr ''f''])
     = Inr [''long wait'', ''7'', ''d'', ''e'']"
    by simp
  define d :: nat where "d = 4300"
  define n :: int where "n = 10 ^ d"
  have "int_max_str_digits no_lib = d" "0 < d"
    by (simp_all add: no_lib_def d_def)
  moreover have "10 ^ d \<le> n"
    unfolding n_def by (rule order_refl)
  ultimately have "py_str no_lib (PInt n) = Inl ValueError"
    by (rule py_str_digit_limit)
  then have "clean_text no_lib (PInt n) = Inl ValueError"
    by (simp add: clean_text_def)
  then have "clean_all no_lib (take 5 [PStr ''a'', PInt n]) = Inl ValueError"
    by (simp add: clean_text_str)
  with validate_bullets_behaviour[of no_lib "''''" "[PStr ''a'', PInt n]" "[]" ValueError True 0 FNan "[]"]
  have "validate_bullets no_lib (PList [PStr ''a'', PInt n]) = Inl ValueError"
    by blast
  then have raises: "validate_bullets no_lib (PList [PStr ''a'', PInt (10 ^ 4300)]) = Inl ValueError"
    unfolding n_def d_def .
  from returns raises show ?thesis by (rule conjI)
qed

text \<open>
  C5 as stated (clean, drop the empty elements, then cut to five) fails on a list: of the six
  bullets \<open>a\<close>, a blank, \<open>c\<close>, \<open>d\<close>, \<open>e\<close>, \<open>f\<close> the stated order keeps five, the code cuts
  to the first five elements before it drops the blank one and keeps four.
\<close>

theorem validate_bullets_order_counterexample:
  "validate_bullets_spec no_lib (PList [PStr ''a'', PStr '' '', PStr ''c'', PStr ''d'', PStr ''e'', PStr ''f''])
     = Some [''a'', ''c'', ''d'', ''e'', ''f'']
   \<and> validate_bullets no_lib (PList [PStr ''a'', PStr '' '', PStr ''c'', PStr ''d'', PStr ''e'', PStr ''f''])
     = Inr [''a'', ''c'', ''d'', ''e'']"
  by code_simp

text \<open>An int beyond the interpreter's digit limit is an element that has no text.\<close>

lemma validate_bullets_digit_limit:
  assumes "int_max_str_digits L = d" and "0 < d" and "10 ^ d \<le> (n :: int)"
  shows "validate_bullets L (PList [PInt n]) = Inl ValueError"
proof -
  have "py_str L (PInt n) = Inl ValueError"
    using assms by (rule py_str_digit_limit)
  then have "clean_all L (take 5 [PInt n]) = Inl ValueError"
    by (simp add: clean_text_def)
  then show ?thesis by (simp add: validate_bullets_list)
qed

section \<open>Validity and idempotence of the normaliser\<close>

lemma or_placeholder_shape:
  assumes "length ys \<le> 5" and "list_all (\<lambda>b. b \<noteq> [] \<and> clean_str b = b) ys"
  shows "1 \<le> length (or_placeholder ys) \<and> length (or_placeholder ys) \<le> 5
        \<and> list_all (\<lambda>b. b \<noteq> [] \<and> clean_str b = b) (or_placeholder ys)"
proof (cases "ys = []")
  case True
  have "placeholder \<noteq> []" by (simp add: placeholder_def)
  with True show ?thesis by (simp add: or_placeholder_def clean_placeholder)
next
  case False
  then have "1 \<le> length ys" by (cases ys) simp_all
  with False assms show ?thesis by (simp add: or_placeholder_def)
qed

lemma cleaned_strings:
  "list_all (\<lambda>b. b \<noteq> [] \<and> clean_str b = b) (filter (\<lambda>t. t \<noteq> []) (map clean_str ss))"
  by (induction ss) (simp_all add: clean_str_idem)

lemma clean_all_result:
  assumes "clean_all L xs = Inr ts"
  shows "length ts = length xs \<and> list_all (\<lambda>t. clean_str t = t) ts"
  using assms
proof (induction xs arbitrary: ts)
  case Nil
  then show ?case by simp
next
  case (Cons x xs)
  from Cons.prems obtain t ts' where t: "clean_text L x = Inr t"
    and ts': "clean_all L xs = Inr ts'" and ts: "ts = t # ts'"
    by (auto split: sum.splits)
  from clean_text_result[OF t] Cons.IH[OF ts'] show ?case
    by (simp add: ts)
qed

lemma cleaned_texts:
  assumes "list_all (\<lambda>t. clean_str t = t) ts"
  shows "list_all (\<lambda>b. b \<noteq> [] \<and> clean_str b = b) (filter (\<lambda>t. t \<noteq> []) ts)"
  using assms by (induction ts) simp_all

lemma list_all_take:
  assumes "list_all P xs"
  shows "list_all P (take n xs)"
  using assms by (auto simp: list_all_iff dest: in_set_takeD)

lemma placeholder_shape:
  "1 \<le> length [placeholder] \<and> length [placeholder] \<le> 5
   \<and> list_all (\<lambda>b. b \<noteq> [] \<and> clean_str b = b) [placeholder]"
proof -
  have "placeholder \<noteq> []" by (simp add: placeholder_def)
  then show ?thesis by (simp add: clean_placeholder)
qed

lemma validate_bullets_shape:
  assumes "validate_bullets L v = Inr bs"
  shows "1 \<le> length bs \<and> length bs \<le> 5 \<and> list_all (\<lambda>b. b \<noteq> [] \<and> clean_str b = b) bs"
proof (cases v)
  case (PStr s)
  define ys where "ys = take 5 (filter (\<lambda>t. t \<noteq> []) (map clean_str (split_on CHR '','' s)))"
  have "list_all (\<lambda>b. b \<noteq> [] \<and> clean_str b = b) ys"
    unfolding ys_def by (rule list_all_take) (rule cleaned_strings)
  moreover have "length ys \<le> 5" by (simp add: ys_def)
  ultimately have "1 \<le> length (or_placeholder ys) \<and> length (or_placeholder ys) \<le> 5
        \<and> list_all (\<lambda>b. b \<noteq> [] \<and> clean_str b = b) (or_placeholder ys)"
    by (rule or_placeholder_shape[rotated])
  moreover have "bs = or_placeholder ys"
    using assms by (simp add: PStr validate_bullets_str ys_def)
  ultimately show ?thesis by simp
next
  case (PList xs)
  with assms obtain ts where ts: "clean_all L (take 5 xs) = Inr ts"
    and bs: "bs = or_placeholder (filter (\<lambda>t. t \<noteq> []) ts)"
    by (auto simp: validate_bullets_list split: sum.splits)
  define ys where "ys = filter (\<lambda>t. t \<noteq> []) ts"
  from clean_all_result[OF ts] have len: "length ts \<le> 5" and cl: "list_all (\<lambda>t. clean_str t = t) ts"
    by simp_all
  have "length ys \<le> length ts"
    unfolding ys_def by (rule length_filter_le)
  with len have "length ys \<le> 5" by simp
  moreover have "list_all (\<lambda>b. b \<noteq> [] \<and> clean_str b = b) ys"
    unfolding ys_def using cl by (rule cleaned_texts)
  ultimately have "1 \<le> length (or_placeholder ys) \<and> length (or_placeholder ys) \<le> 5
        \<and> list_all (\<lambda>b. b \<noteq> [] \<and> clean_str b = b) (or_placeholder ys)"
    by (rule or_placeholder_shape)
  then show ?thesis by (simp only: bs ys_def)
next
  case PNone
  with assms have "bs = [placeholder]" by (simp add: validate_bullets_def)
  with placeholder_shape show ?thesis by simp
next
  case (PBool x)
  with assms have "bs = [placeholder]" by (simp add: validate_bullets_def)
  with placeholder_shape show ?thesis by simp
next
  case (PInt x)
  with assms have "bs = [placeholder]" by (simp add: validate_bullets_def)
  with placeholder_shape show ?thesis by simp
next
  case (PFloat x)
  with assms have "bs = [placeholder]" by (simp add: validate_bullets_def)
  with placeholder_shape show ?thesis by simp
next
  case (PDict x)
  with assms have "bs = [placeholder]" by (simp add: validate_bullets_def)
  with placeholder_shape show ?thesis by simp
qed

lemma validate_bullets_fixed:
  assumes "1 \<le> length bs" and "length bs \<le> 5"
    and "list_all (\<lambda>b. b \<noteq> [] \<and> clean_str b = b) bs"
  shows "validate_bullets L (PList (map PStr bs)) = Inr bs"
proof -
  have "map clean_str bs = bs"
    using assms(3) by (induction bs) simp_all
  moreover have "filter (\<lambda>t. t \<noteq> []) bs = bs"
    using assms(3) by (induction bs) simp_all
  moreover have "bs \<noteq> []" using assms(1) by auto
  moreover have "take 5 (map PStr bs) = map PStr bs"
    using assms(2) by simp
  ultimately show ?thesis
    by (simp add: validate_bullets_list clean_all_strings or_placeholder_def)
qed

lemma validate_confidence_range:
  assumes "validate_confidence L v = Inr c"
  shows "c \<in> set [''yes'', ''no'', ''partial'']"
  using assms by (auto simp: validate_confidence_def Let_def split: if_splits sum.splits)

lemma validate_confidence_fixed:
  assumes "c \<in> set [''yes'', ''no'', ''partial'']"
  shows "validate_confidence L (PStr c) = Inr c"
proof -
  have "py_strip (py_lower ''yes'') = ''yes''" "py_strip (py_lower ''no'') = ''no''"
    "py_strip (py_lower ''partial'') = ''partial''"
    by code_simp+
  moreover from assms have "c = ''yes'' \<or> c = ''no'' \<or> c = ''partial''" by simp
  ultimately show ?thesis
    by (elim disjE) (simp_all add: validate_confidence_def py_str_def)
qed

lemma validate_radar_shape:
  assumes "validate_radar_metrics L v = Inr r"
  shows "map fst r = map fst default_metrics \<and> list_all score_ok (map snd r)"
proof (cases v)
  case (PDict items)
  with assms have "radar_loop L items (map fst default_metrics) [] = Inr r"
    by (simp add: validate_radar_metrics_def)
  from radar_loop_result[OF this] show ?thesis
    by (simp add: default_metrics_def)
qed (use assms in \<open>auto simp: validate_radar_metrics_def default_metrics_def score_ok_def\<close>)

lemma validate_radar_missing_axis:
  assumes "validate_radar_metrics L (PDict items) = Inr r"
    and "k \<in> set (map fst default_metrics)" and "map_of items k = None"
  shows "map_of r k = Some 3"
proof -
  from assms(1) have loop: "radar_loop L items (map fst default_metrics) [] = Inr r"
    by (simp add: validate_radar_metrics_def)
  have d: "distinct (map fst default_metrics)"
    by (simp add: default_metrics_def)
  have e: "set (map fst default_metrics) \<inter> fst ` set ([] :: (string \<times> int) list) = {}"
    and o: "list_all score_ok (map snd ([] :: (string \<times> int) list))"
    by simp_all
  note R = radar_loop_result[OF loop d e o]
  from R have "\<forall>k \<in> set (map fst default_metrics). map_of items k = None \<longrightarrow> map_of r k = Some 3"
    by (rule conjunct1[OF conjunct2[OF conjunct2]])
  with assms(2,3) show ?thesis by blast
qed

lemma validate_radar_fixed:
  assumes "map fst r = map fst default_metrics" and "list_all score_ok (map snd r)"
  shows "validate_radar_metrics L (PDict (map (\<lambda>(k, v). (k, PInt v)) r)) = Inr r"
proof -
  from assms(1) obtain v1 v2 v3 v4 v5 where
    r: "r = [(''felt_heard'', v1), (''concerns_addressed'', v2), (''clear_communication'', v3),
             (''respect_shown'', v4), (''time_given'', v5)]"
    by (auto simp: default_metrics_def map_eq_Cons_conv)
  with assms(2) have ok: "score_ok v1" "score_ok v2" "score_ok v3" "score_ok v4" "score_ok v5"
    by simp_all
  show ?thesis
    unfolding r validate_radar_metrics_def default_metrics_def
    by (simp add: dict_get_def validate_score_fixed[OF ok(1)] validate_score_fixed[OF ok(2)]
        validate_score_fixed[OF ok(3)] validate_score_fixed[OF ok(4)] validate_score_fixed[OF ok(5)])
qed

text \<open>What a returned record looks like, field by field.\<close>

lemma process_llm_output_fields:
  assumes "process_llm_output L raw = Inr r"
  shows "score_ok (satisfaction_score r) \<and> score_ok (duration_satisfaction r) \<and> score_ok (staff_behavior r)
       \<and> map fst (radar_metrics r) = map fst default_metrics \<and> list_all score_ok (map snd (radar_metrics r))
       \<and> confidence_in_treatment r \<in> set [''yes'', ''no'', ''partial'']
       \<and> (\<exists>v. validate_bullets L v = Inr (summary_bullets r))"
proof -
  define d where "d = (case raw of PDict items \<Rightarrow> items | _ \<Rightarrow> [])"
  from assms obtain s1 rd cf s2 s3 bs where
    a: "validate_score L (dict_get d ''satisfaction_score'' (PInt 3)) 1 5 = Inr s1"
    and b: "validate_radar_metrics L (dict_get d ''radar_metrics'' (PDict [])) = Inr rd"
    and k: "validate_confidence L (dict_get d ''confidence_in_treatment'' (PStr ''partial'')) = Inr cf"
    and c: "validate_score L (dict_get d ''duration_satisfaction'' (PInt 3)) 1 5 = Inr s2"
    and e: "validate_score L (dict_get d ''staff_behavior'' (PInt 3)) 1 5 = Inr s3"
    and g: "validate_bullets L (dict_get d ''summary_bullets'' (PList [])) = Inr bs"
    and r: "r = \<lparr>satisfaction_score = s1, radar_metrics = rd, confidence_in_treatment = cf,
                 duration_satisfaction = s2, staff_behavior = s3, summary_bullets = bs\<rparr>"
    unfolding process_llm_output_def Let_def d_def[symmetric]
    by (auto split: sum.splits)
  have "score_ok s1" "score_ok s2" "score_ok s3"
    using validate_score_range[OF a] validate_score_range[OF c] validate_score_range[OF e]
    by (simp_all add: score_ok_def)
  moreover note validate_radar_shape[OF b] validate_confidence_range[OF k]
  moreover from g have "\<exists>v. validate_bullets L v = Inr bs" by blast
  ultimately show ?thesis
    unfolding r by (simp del: set_simps)
qed

lemma process_llm_output_valid:
  assumes "process_llm_output L raw = Inr r"
  shows "valid_record r"
proof -
  from process_llm_output_fields[OF assms] obtain v where
    f: "score_ok (satisfaction_score r)" "score_ok (duration_satisfaction r)" "score_ok (staff_behavior r)"
      "map fst (radar_metrics r) = map fst default_metrics" "list_all score_ok (map snd (radar_metrics r))"
      "confidence_in_treatment r \<in> set [''yes'', ''no'', ''partial'']"
    and v: "validate_bullets L v = Inr (summary_bullets r)"
    by blast
  from validate_bullets_shape[OF v]
  have "1 \<le> length (summary_bullets r)" "length (summary_bullets r) \<le> 5"
    "list_all (\<lambda>b. b \<noteq> []) (summary_bullets r)"
    by (simp_all add: list_all_iff)
  with f show ?thesis
    unfolding valid_record_def by blast
qed

lemma process_llm_output_not_dict:
  assumes "\<And>items. raw \<noteq> PDict items"
  shows "process_llm_output L raw = Inr default_record"
proof -
  have d: "(case raw of PDict items \<Rightarrow> items | _ \<Rightarrow> []) = []"
    using assms by (cases raw) auto
  have three: "validate_score L (PInt 3) 1 5 = Inr 3"
    by (rule validate_score_fixed) (simp add: score_ok_def)
  have conf: "validate_confidence L (PStr ''partial'') = Inr ''partial''"
    by (rule validate_confidence_fixed) simp
  have radar: "validate_radar_metrics L (PDict []) = Inr default_metrics"
    by (simp add: validate_radar_metrics_def default_metrics_def dict_get_def three)
  have bullets: "validate_bullets L (PList []) = Inr [placeholder]"
    by (simp add: validate_bullets_list or_placeholder_def)
  show ?thesis
    unfolding process_llm_output_def Let_def d
    by (simp add: dict_get_def three conf radar bullets default_record_def)
qed

text \<open>
  C8: the normaliser is idempotent.  Whenever \<open>process_llm_output\<close> returns a record, the
  dict of that record is normalised to the same record, every field unchanged.
\<close>

theorem normalize_idempotent:
  assumes "process_llm_output L raw = Inr r"
  shows "process_llm_output L (feedback_dict r) = Inr r"
proof -
  from process_llm_output_fields[OF assms] obtain v where
    f: "score_ok (satisfaction_score r)" "score_ok (duration_satisfaction r)" "score_ok (staff_behavior r)"
      "map fst (radar_metrics r) = map fst default_metrics" "list_all score_ok (map snd (radar_metrics r))"
      "confidence_in_treatment r \<in> set [''yes'', ''no'', ''partial'']"
    and v: "validate_bullets L v = Inr (summary_bullets r)"
    by blast
  from validate_bullets_shape[OF v]
  have b: "validate_bullets L (PList (map PStr (summary_bullets r))) = Inr (summary_bullets r)"
    by (intro validate_bullets_fixed) simp_all
  note s = validate_score_fixed[OF f(1)] validate_score_fixed[OF f(2)] validate_score_fixed[OF f(3)]
    validate_radar_fixed[OF f(4,5)] validate_confidence_fixed[OF f(6)]
  show ?thesis
    unfolding process_llm_output_def feedback_dict_def Let_def
    by (simp add: dict_get_def s b)
qed


theorem normalize_idempotent_witness:
  "process_llm_output no_lib
     (PDict [(''satisfaction_score'', PInt 9), (''confidence_in_treatment'', PBool True),
             (''summary_bullets'', PStr ''long  wait, rude staff'')])
   = Inr \<lparr>satisfaction_score = 5, radar_metrics = default_metrics, confidence_in_treatment = ''yes'',
          duration_satisfaction = 3, staff_behavior = 3, summary_bullets = [''long wait'', ''rude staff'']\<rparr>
   \<and> process_llm_output no_lib
     (feedback_dict \<lparr>satisfaction_score = 5, radar_metrics = default_metrics, confidence_in_treatment = ''yes'',
          duration_satisfaction = 3, staff_behavior = 3, summary_bullets = [''long wait'', ''rude staff'']\<rparr>)
   = Inr \<lparr>satisfaction_score = 5, radar_metrics = default_metrics, confidence_in_treatment = ''yes'',
          duration_satisfaction = 3, staff_behavior = 3, summary_bullets = [''long wait'', ''rude staff'']\<rparr>"
proof -
  have h: "process_llm_output no_lib
     (PDict [(''satisfaction_score'', PInt 9), (''confidence_in_treatment'', PBool True),
             (''summary_bullets'', PStr ''long  wait, rude staff'')])
   = Inr \<lparr>satisfaction_score = 5, radar_metrics = default_metrics, confidence_in_treatment = ''yes'',
          duration_satisfaction = 3, staff_behavior = 3, summary_bullets = [''long wait'', ''rude staff'']\<rparr>"
    by code_simp
  from normalize_idempotent[OF h] h show ?thesis by (rule conjI[rotated])
qed

section \<open>Properties of the analysis path\<close>

lemma process_llm_output_empty: "process_llm_output L (PDict []) = Inr default_record"
proof -
  have three: "validate_score L (PInt 3) 1 5 = Inr 3"
    by (rule validate_score_fixed) (simp add: score_ok_def)
  have conf: "validate_confidence L (PStr ''partial'') = Inr ''partial''"
    by (rule validate_confidence_fixed) simp
  have radar: "validate_radar_metrics L (PDict []) = Inr default_metrics"
    by (simp add: validate_radar_metrics_def default_metrics_def dict_get_def three)
  have bullets: "validate_bullets L (PList []) = Inr [placeholder]"
    by (simp add: validate_bullets_list or_placeholder_def)
  show ?thesis
    unfolding process_llm_output_def Let_def
    by (simp add: dict_get_def three conf radar bullets default_record_def)
qed

lemma analyze_gateway_error:
  assumes "analyze_conversation user_message system_prompt = Inl exc"
  shows "analyze_pipeline L analyze_conversation json_loads user_message system_prompt = Inr default_record"
  using assms
  by (simp add: analyze_pipeline_def analyze_feedback_def process_llm_output_empty)

lemma process_parse_fallback: "process_llm_output L parse_fallback = Inr default_record"
proof -
  have three: "validate_score L (PInt 3) 1 5 = Inr 3"
    by (rule validate_score_fixed) (simp add: score_ok_def)
  have conf: "validate_confidence L (PStr ''partial'') = Inr ''partial''"
    by (rule validate_confidence_fixed) simp
  have radar: "validate_radar_metrics L (PDict []) = Inr default_metrics"
    by (simp add: validate_radar_metrics_def default_metrics_def dict_get_def three)
  have bullets: "validate_bullets L (PList []) = Inr [placeholder]"
    by (simp add: validate_bullets_list or_placeholder_def)
  show ?thesis
    unfolding process_llm_output_def Let_def parse_fallback_def
    by (simp add: dict_get_def three conf radar bullets default_record_def)
qed

lemma analyze_parse_failure:
  assumes "analyze_conversation user_message system_prompt = Inr (Some raw_response)"
    and "json_loads (strip_fences raw_response) = JSONDecodeError"
  shows "analyze_pipeline L analyze_conversation json_loads user_message system_prompt = Inr default_record
       \<and> satisfaction_score default_record = 3 \<and> valid_record default_record"
proof -
  have "analyze_pipeline L analyze_conversation json_loads user_message system_prompt = Inr default_record"
    using assms by (simp add: analyze_pipeline_def analyze_feedback_def process_parse_fallback)
  moreover have "valid_record default_record"
    using process_parse_fallback by (rule process_llm_output_valid)
  ultimately show ?thesis by (simp add: default_record_def)
qed

text \<open>
  C3 (the analysis path always ends in a valid record): when the provider's text decodes to
  the object \<open>{"satisfaction_score": Infinity}\<close>, as the JSON text
  \<open>{"satisfaction_score": 1e999}\<close> does, \<open>analyze_feedback\<close> returns that object and
  \<open>process_llm_output\<close> leaves with an \<open>OverflowError\<close>: no record is produced.  A provider
  exception and a JSON decode error do end in the default record
  (\<open>analyze_gateway_error\<close>, \<open>analyze_parse_failure\<close>).
\<close>

theorem analyze_pipeline_overflow:
  assumes "analyze_conversation user_message system_prompt = Inr (Some raw_response)"
    and "json_loads (strip_fences raw_response) = Parsed (PDict [(''satisfaction_score'', PFloat (FInf False))])"
  shows "analyze_pipeline L analyze_conversation json_loads user_message system_prompt = Inl OverflowError"
  using assms
  by (simp add: analyze_pipeline_def analyze_feedback_def process_llm_output_def dict_get_def validate_score_inf)

theorem analyze_pipeline_overflow_witness:
  "analyze_pipeline no_lib (\<lambda>c p. Inr (Some ''```json{\"satisfaction_score\": 1e999}```''))
     (\<lambda>s. if s = ''{\"satisfaction_score\": 1e999}''
          then Parsed (PDict [(''satisfaction_score'', PFloat (FInf False))]) else JSONDecodeError)
     ''transcript'' ''prompt''
   = Inl OverflowError"
proof -
  have f: "strip_fences ''```json{\"satisfaction_score\": 1e999}```'' = ''{\"satisfaction_score\": 1e999}''"
    by code_simp
  show ?thesis
    by (rule analyze_pipeline_overflow[where raw_response = "''```json{\"satisfaction_score\": 1e999}```''"])
       (simp_all add: f)
qed

end
